theory Spec2Isabelle
  imports Complex_Main
begin

section \<open>Todo utility functions and localStorage management\<close>

text \<open>
  A shallow embedding of the todo utility module: the operations on the in-memory list
  of todos, the queries, and the persistence through the browser's localStorage.

  JavaScript strings are lists of characters; a character stands for a code unit below
  256. Whatever the module takes from the browser (the clock, the uuid generator, the
  storage slot, the console, the download of a file) is a field of the record
  \<open>world\<close>, which every operation with an effect takes and returns.
\<close>

subsection \<open>Strings\<close>

definition isWhiteSpace :: "char \<Rightarrow> bool" where
  \<comment> \<open>the white space and line terminators \<open>trim\<close> strips: TAB, LF, VT, FF, CR, SP, NBSP\<close>
  "isWhiteSpace c = (of_char c \<in> {9, 10, 11, 12, 13, 32, 160 :: nat})"

definition trim :: "string \<Rightarrow> string" where
  "trim s = rev (dropWhile isWhiteSpace (rev (dropWhile isWhiteSpace s)))"

definition lowerChar :: "char \<Rightarrow> char" where
  \<comment> \<open>the capital letters among the code units below 256: A to Z, and U+00C0 to U+00DE
      but the multiplication sign U+00D7\<close>
  "lowerChar c =
     (let n = (of_char c :: nat) in
      if (65 \<le> n \<and> n \<le> 90) \<or> (192 \<le> n \<and> n \<le> 222 \<and> n \<noteq> 215) then char_of (n + 32) else c)"

definition toLowerCase :: "string \<Rightarrow> string" where
  "toLowerCase s = map lowerChar s"

subsection \<open>JSON values and payloads\<close>

datatype json =
    JNull
  | JBool bool
  | JNum rat
  | JStr string
  | JArr "json list"
  | JObj "(string \<times> json) list"

text \<open>
  A piece of text handed to \<open>JSON.parse\<close> is represented by what the parser makes of
  it: either it is not JSON (the parser throws a SyntaxError), or it denotes a value.
  \<open>JSON.stringify\<close> of a value is the text that denotes it, with or without
  indentation.
\<close>

datatype payload = NotJSON string | JSONText json

datatype error = Error string | TypeError | SyntaxError | SecurityError | QuotaExceededError

definition JSON_stringify :: "json \<Rightarrow> payload" where
  "JSON_stringify v = JSONText v"

definition JSON_parse :: "payload \<Rightarrow> error + json" where
  "JSON_parse p = (case p of NotJSON s \<Rightarrow> Inl SyntaxError | JSONText v \<Rightarrow> Inr v)"

subsection \<open>The todo record\<close>

text \<open>The object \<open>createTodo\<close> builds. The fields \<open>id\<close> and \<open>text\<close> carry a prime.\<close>

record todo =
  id' :: string
  text' :: string
  completed :: bool
  category :: string
  priority :: string
  createdAt :: string
  updatedAt :: string
  dueDate :: "string option"
  tags :: "string list"
  description :: string

text \<open>
  The object of partial fields given to an update: every key of a todo may be present
  (\<open>Some\<close>) or absent (\<open>None\<close>). The object spread \<open>{...todo, ...updates}\<close> copies
  every key that is present, whatever its name.
\<close>

record updates =
  upd_id :: "string option"
  upd_text :: "string option"
  upd_completed :: "bool option"
  upd_category :: "string option"
  upd_priority :: "string option"
  upd_createdAt :: "string option"
  upd_updatedAt :: "string option"
  upd_dueDate :: "string option option"
  upd_tags :: "string list option"
  upd_description :: "string option"

definition no_updates :: updates where
  "no_updates = \<lparr>upd_id = None, upd_text = None, upd_completed = None, upd_category = None,
     upd_priority = None, upd_createdAt = None, upd_updatedAt = None, upd_dueDate = None,
     upd_tags = None, upd_description = None\<rparr>"

definition orElse :: "'a option \<Rightarrow> 'a \<Rightarrow> 'a" where
  "orElse v d = (case v of None \<Rightarrow> d | Some x \<Rightarrow> x)"

definition spread :: "todo \<Rightarrow> updates \<Rightarrow> todo" where
  \<comment> \<open>\<open>{...todo, ...updates}\<close>\<close>
  "spread t u =
     \<lparr>id' = orElse (upd_id u) (id' t),
      text' = orElse (upd_text u) (text' t),
      completed = orElse (upd_completed u) (completed t),
      category = orElse (upd_category u) (category t),
      priority = orElse (upd_priority u) (priority t),
      createdAt = orElse (upd_createdAt u) (createdAt t),
      updatedAt = orElse (upd_updatedAt u) (updatedAt t),
      dueDate = orElse (upd_dueDate u) (dueDate t),
      tags = orElse (upd_tags u) (tags t),
      description = orElse (upd_description u) (description t)\<rparr>"

type_synonym obj = "(string \<times> json) list"

definition toObject :: "todo \<Rightarrow> obj" where
  \<comment> \<open>the keys in the order \<open>createTodo\<close> writes them\<close>
  "toObject t =
     [(''id'', JStr (id' t)),
      (''text'', JStr (text' t)),
      (''completed'', JBool (completed t)),
      (''category'', JStr (category t)),
      (''priority'', JStr (priority t)),
      (''createdAt'', JStr (createdAt t)),
      (''updatedAt'', JStr (updatedAt t)),
      (''dueDate'', (case dueDate t of None \<Rightarrow> JNull | Some d \<Rightarrow> JStr d)),
      (''tags'', JArr (map JStr (tags t))),
      (''description'', JStr (description t))]"

definition toJSON :: "todo \<Rightarrow> json" where
  "toJSON t = JObj (toObject t)"

subsection \<open>The browser\<close>

text \<open>
  \<open>clock w k\<close> is what the \<open>k\<close>-th \<open>new Date().toISOString()\<close> returns and
  \<open>uuids w k\<close> what the \<open>k\<close>-th \<open>uuidv4()\<close> returns; \<open>ticks\<close> and \<open>drawn\<close> count the
  calls made so far. \<open>slot\<close> is the content of localStorage under the key
  \<open>glassmorphic-todos\<close>; \<open>readable\<close> and \<open>writable\<close> say whether \<open>getItem\<close> and
  \<open>setItem\<close> return or throw. \<open>console\<close> collects what \<open>console.error\<close> is given, and
  \<open>downloads\<close> the files offered for download, when the document allows it
  (\<open>dom_ok\<close>). \<open>getTime w s\<close> is \<open>new Date(s).getTime()\<close>, with \<open>None\<close> for the
  \<open>NaN\<close> of an invalid date. \<open>inherited w k\<close> is, for a name \<open>k\<close> that every object
  inherits from \<open>Object.prototype\<close> (\<open>constructor\<close>, \<open>toString\<close>, \<open>__proto__\<close>, ...), the
  string the inherited value converts to (the text of the function), and \<open>None\<close> for any
  other name.
\<close>

record world =
  clock :: "nat \<Rightarrow> string"
  ticks :: nat
  uuids :: "nat \<Rightarrow> string"
  drawn :: nat
  slot :: "payload option"
  readable :: bool
  writable :: bool
  console :: "string list"
  dom_ok :: bool
  downloads :: "(string \<times> payload) list"
  getTime :: "string \<Rightarrow> int option"
  inherited :: "string \<Rightarrow> string option"

definition newDate :: "world \<Rightarrow> string \<times> world" where
  "newDate w = (clock w (ticks w), w\<lparr>ticks := Suc (ticks w)\<rparr>)"

definition uuidv4 :: "world \<Rightarrow> string \<times> world" where
  "uuidv4 w = (uuids w (drawn w), w\<lparr>drawn := Suc (drawn w)\<rparr>)"

definition console_error :: "string \<Rightarrow> world \<Rightarrow> world" where
  "console_error msg w = w\<lparr>console := console w @ [msg]\<rparr>"

definition getItem :: "world \<Rightarrow> error + payload option" where
  "getItem w = (if readable w then Inr (slot w) else Inl SecurityError)"

definition setItem :: "payload \<Rightarrow> world \<Rightarrow> error + world" where
  "setItem p w = (if writable w then Inr (w\<lparr>slot := Some p\<rparr>) else Inl QuotaExceededError)"

subsection \<open>Creating and saving\<close>

definition createTodo :: "world \<Rightarrow> string \<Rightarrow> string option \<Rightarrow> string option \<Rightarrow> todo \<times> world" where
  \<comment> \<open>an omitted category or priority (\<open>None\<close>) takes its default\<close>
  "createTodo w txt cat prio =
     (let (u, w1) = uuidv4 w;
          (c, w2) = newDate w1;
          (m, w3) = newDate w2
      in (\<lparr>id' = u, text' = trim txt, completed = False,
           category = orElse cat ''general'', priority = orElse prio ''medium'',
           createdAt = c, updatedAt = m, dueDate = None, tags = [], description = ''''\<rparr>, w3))"

definition saveTodos :: "world \<Rightarrow> todo list \<Rightarrow> bool \<times> world" where
  "saveTodos w todos =
     (case setItem (JSON_stringify (JArr (map toJSON todos))) w of
        Inr w' \<Rightarrow> (True, w')
      | Inl e \<Rightarrow> (False, console_error ''Error saving todos to localStorage:'' w))"

definition addTodo ::
  "world \<Rightarrow> todo list \<Rightarrow> string \<Rightarrow> string option \<Rightarrow> string option \<Rightarrow> (error + todo list) \<times> world" where
  "addTodo w todos txt cat prio =
     (if txt = [] \<or> trim txt = [] then (Inl (Error ''Todo text cannot be empty''), w)
      else
        let (newTodo, w1) = createTodo w txt cat prio;
            updatedTodos = newTodo # todos;
            (ok, w2) = saveTodos w1 updatedTodos
        in (Inr updatedTodos, w2))"

subsection \<open>Updating, toggling, deleting\<close>

fun updateTodo_map :: "world \<Rightarrow> todo list \<Rightarrow> string \<Rightarrow> updates \<Rightarrow> todo list \<times> world" where
  "updateTodo_map w [] i u = ([], w)"
| "updateTodo_map w (t # ts) i u =
     (if id' t = i then
        let (now, w1) = newDate w;
            t' = (spread t u)\<lparr>updatedAt := now,
                   text' := (case upd_text u of
                               Some s \<Rightarrow> if s \<noteq> [] then trim s else text' t
                             | None \<Rightarrow> text' t)\<rparr>;
            (ts', w2) = updateTodo_map w1 ts i u
        in (t' # ts', w2)
      else
        let (ts', w2) = updateTodo_map w ts i u in (t # ts', w2))"

definition updateTodo :: "world \<Rightarrow> todo list \<Rightarrow> string \<Rightarrow> updates \<Rightarrow> todo list \<times> world" where
  "updateTodo w todos i u =
     (let (updatedTodos, w1) = updateTodo_map w todos i u;
          (ok, w2) = saveTodos w1 updatedTodos
      in (updatedTodos, w2))"

definition toggleTodo :: "world \<Rightarrow> todo list \<Rightarrow> string \<Rightarrow> todo list \<times> world" where
  \<comment> \<open>\<open>!undefined\<close> is \<open>true\<close> when no todo has the id\<close>
  "toggleTodo w todos i =
     updateTodo w todos i
       (no_updates\<lparr>upd_completed :=
          Some (case find (\<lambda>t. id' t = i) todos of
                  None \<Rightarrow> True
                | Some t \<Rightarrow> \<not> completed t)\<rparr>)"

definition deleteTodo :: "world \<Rightarrow> todo list \<Rightarrow> string \<Rightarrow> todo list \<times> world" where
  "deleteTodo w todos i =
     (let updatedTodos = filter (\<lambda>t. id' t \<noteq> i) todos;
          (ok, w1) = saveTodos w updatedTodos
      in (updatedTodos, w1))"








subsection \<open>Queries\<close>

definition filterTodos :: "todo list \<Rightarrow> string \<Rightarrow> todo list" where
  "filterTodos todos f =
     (if f = ''active'' then filter (\<lambda>t. \<not> completed t) todos
      else if f = ''completed'' then filter (\<lambda>t. completed t) todos
      else todos)"

definition filterByCategory :: "todo list \<Rightarrow> string option \<Rightarrow> todo list" where
  "filterByCategory todos cat =
     (case cat of
        None \<Rightarrow> todos
      | Some c \<Rightarrow> if c = [] \<or> c = ''all'' then todos else filter (\<lambda>t. category t = c) todos)"

definition filterByPriority :: "todo list \<Rightarrow> string option \<Rightarrow> todo list" where
  "filterByPriority todos prio =
     (case prio of
        None \<Rightarrow> todos
      | Some p \<Rightarrow> if p = [] \<or> p = ''all'' then todos else filter (\<lambda>t. priority t = p) todos)"

subsection \<open>Sorting\<close>

text \<open>
  The value a record is sorted by is a string, a number or \<open>NaN\<close>. Strings compare by
  their code units, a proper prefix being smaller; a comparison with \<open>NaN\<close> is false.
  A string meets a number only under the key \<open>priority\<close>, where the string is what an
  inherited function converts to: it is no numeral, converts to \<open>NaN\<close>, and the comparison
  is false.
\<close>

datatype key = KStr string | KNum int | KNaN

fun str_less :: "string \<Rightarrow> string \<Rightarrow> bool" where
  "str_less [] [] = False"
| "str_less [] (y # ys) = True"
| "str_less (x # xs) [] = False"
| "str_less (x # xs) (y # ys) =
     ((of_char x :: nat) < of_char y \<or> (x = y \<and> str_less xs ys))"

fun js_less :: "key \<Rightarrow> key \<Rightarrow> bool" where
  "js_less (KStr a) (KStr b) = str_less a b"
| "js_less (KNum a) (KNum b) = (a < b)"
| "js_less _ _ = False"

definition js_greater :: "key \<Rightarrow> key \<Rightarrow> bool" where
  "js_greater a b = js_less b a"

definition timeKey :: "world \<Rightarrow> string \<Rightarrow> key" where
  "timeKey w s = (case getTime w s of None \<Rightarrow> KNaN | Some n \<Rightarrow> KNum n)"

definition sortKey :: "world \<Rightarrow> string \<Rightarrow> todo \<Rightarrow> key" where
  \<comment> \<open>\<open>priorityOrder[a.priority] || 0\<close>: for a priority that names a property every object
      inherits, the lookup finds the inherited value, which is truthy\<close>
  "sortKey w sortBy a =
     (if sortBy = ''text'' then KStr (toLowerCase (text' a))
      else if sortBy = ''priority'' then
        (if priority a = ''high'' then KNum 3
         else if priority a = ''medium'' then KNum 2
         else if priority a = ''low'' then KNum 1
         else (case inherited w (priority a) of None \<Rightarrow> KNum 0 | Some f \<Rightarrow> KStr f))
      else if sortBy = ''category'' then KStr (toLowerCase (category a))
      else if sortBy = ''completed'' then KNum (if completed a then 1 else 0)
      else if sortBy = ''dueDate'' then
        (case dueDate a of
           None \<Rightarrow> KNum 0
         | Some d \<Rightarrow> if d \<noteq> [] then timeKey w d else KNum 0)
      else if sortBy = ''updatedAt'' then timeKey w (updatedAt a)
      else timeKey w (createdAt a))"

definition compareTodos :: "world \<Rightarrow> string \<Rightarrow> string \<Rightarrow> todo \<Rightarrow> todo \<Rightarrow> int" where
  \<comment> \<open>the comparator handed to \<open>sort\<close>\<close>
  "compareTodos w sortBy order' a b =
     (let aValue = sortKey w sortBy a; bValue = sortKey w sortBy b in
      if order' = ''asc'' then
        (if js_greater aValue bValue then 1 else if js_less aValue bValue then - 1 else 0)
      else
        (if js_less aValue bValue then 1 else if js_greater aValue bValue then - 1 else 0))"

text \<open>
  \<open>Array.prototype.sort\<close> is the engine's. ECMAScript requires it to be stable, which
  fixes its result for a consistent comparator, and leaves the order to the engine for
  an inconsistent one (a \<open>NaN\<close> among numbers). The model is V8's: an array shorter than
  64 is one run, the longest ascending or strictly descending prefix (the latter
  reversed), into which the other elements are inserted one by one at the place a binary
  search finds. V8 cuts a longer array into such runs of 32 to 64 elements and merges
  them, which for a consistent comparator returns the same list; it is modelled as one
  run too.
\<close>

fun extend_run :: "('a \<Rightarrow> 'a \<Rightarrow> int) \<Rightarrow> bool \<Rightarrow> 'a \<Rightarrow> 'a list \<Rightarrow> 'a list \<times> 'a list" where
  \<comment> \<open>the elements that continue the run after \<open>prev\<close>, and those left\<close>
  "extend_run cmp desc prev [] = ([], [])"
| "extend_run cmp desc prev (cur # rest) =
     (if (if desc then cmp cur prev < 0 else \<not> cmp cur prev < 0) then
        (let (run, left) = extend_run cmp desc cur rest in (cur # run, left))
      else ([], cur # rest))"

fun CountAndMakeRun :: "('a \<Rightarrow> 'a \<Rightarrow> int) \<Rightarrow> 'a list \<Rightarrow> 'a list \<times> 'a list" where
  "CountAndMakeRun cmp [] = ([], [])"
| "CountAndMakeRun cmp [x] = ([x], [])"
| "CountAndMakeRun cmp (x0 # x1 # rest) =
     (let isDescending = cmp x1 x0 < 0;
          (run, left) = extend_run cmp isDescending x1 rest
      in (if isDescending then rev (x0 # x1 # run) else x0 # x1 # run, left))"

function binary_search :: "('a \<Rightarrow> 'a \<Rightarrow> int) \<Rightarrow> 'a \<Rightarrow> 'a list \<Rightarrow> nat \<Rightarrow> nat \<Rightarrow> nat" where
  \<comment> \<open>the loop \<open>while (left < right)\<close> of the insertion\<close>
  "binary_search cmp pivot a left right =
     (if left < right then
        (let mid = left + (right - left) div 2 in
         if cmp pivot (a ! mid) < 0 then binary_search cmp pivot a left mid
         else binary_search cmp pivot a (mid + 1) right)
      else left)"
  by pat_completeness auto
termination
  by (relation "measure (\<lambda>(cmp, pivot, a, left, right). right - left)") auto

declare binary_search.simps [simp del]

fun BinaryInsertionSort :: "('a \<Rightarrow> 'a \<Rightarrow> int) \<Rightarrow> 'a list \<Rightarrow> 'a list \<Rightarrow> 'a list" where
  \<comment> \<open>the sorted part of the array, and the elements still to insert\<close>
  "BinaryInsertionSort cmp front [] = front"
| "BinaryInsertionSort cmp front (pivot # rest) =
     (let left = binary_search cmp pivot front 0 (length front) in
      BinaryInsertionSort cmp (take left front @ pivot # drop left front) rest)"

definition Array_sort :: "('a \<Rightarrow> 'a \<Rightarrow> int) \<Rightarrow> 'a list \<Rightarrow> 'a list" where
  "Array_sort cmp xs =
     (if length xs < 2 then xs
      else (let (run, left) = CountAndMakeRun cmp xs in BinaryInsertionSort cmp run left))"

definition comparable_keys :: "key list \<Rightarrow> bool" where
  \<comment> \<open>all numbers or all strings, and no \<open>NaN\<close>: the keys of a consistent comparator\<close>
  "comparable_keys ks \<longleftrightarrow>
     list_all (\<lambda>k. case k of KNum n \<Rightarrow> True | KStr s \<Rightarrow> False | KNaN \<Rightarrow> False) ks
     \<or> list_all (\<lambda>k. case k of KStr s \<Rightarrow> True | KNum n \<Rightarrow> False | KNaN \<Rightarrow> False) ks"

definition consistent_on :: "'a set \<Rightarrow> ('a \<Rightarrow> 'a \<Rightarrow> int) \<Rightarrow> bool" where
  \<comment> \<open>on the elements of \<open>S\<close>, \<open>cmp a b < 0\<close> is a strict weak order\<close>
  "consistent_on S cmp \<longleftrightarrow>
     (\<forall>a\<in>S. \<forall>b\<in>S. cmp a b < 0 \<longrightarrow> \<not> cmp b a < 0) \<and>
     (\<forall>a\<in>S. \<forall>b\<in>S. \<forall>c\<in>S. \<not> cmp a b < 0 \<longrightarrow> \<not> cmp b c < 0 \<longrightarrow> \<not> cmp a c < 0)"

abbreviation ascending :: "('a \<Rightarrow> 'a \<Rightarrow> int) \<Rightarrow> 'a list \<Rightarrow> bool" where
  "ascending cmp xs \<equiv> sorted_wrt (\<lambda>x y. \<not> cmp y x < 0) xs"

definition sortTodos :: "world \<Rightarrow> todo list \<Rightarrow> string option \<Rightarrow> string option \<Rightarrow> todo list" where
  \<comment> \<open>an omitted \<open>sortBy\<close> is \<open>createdAt\<close>, an omitted \<open>order\<close> is \<open>desc\<close>\<close>
  "sortTodos w todos sortBy order' =
     Array_sort (compareTodos w (orElse sortBy ''createdAt'') (orElse order' ''desc'')) todos"

subsection \<open>Objects of unknown shape\<close>

text \<open>
  What \<open>JSON.parse\<close> returns has any shape, so \<open>loadTodos\<close> and \<open>importTodos\<close> work
  on objects as lists of keys and values (the keys of a parsed object are distinct).
  A key that is absent reads as \<open>undefined\<close>, here \<open>None\<close>.
\<close>

fun truthy :: "json \<Rightarrow> bool" where
  "truthy JNull = False"
| "truthy (JBool b) = b"
| "truthy (JNum n) = (n \<noteq> 0)"
| "truthy (JStr s) = (s \<noteq> [])"
| "truthy (JArr xs) = True"
| "truthy (JObj kvs) = True"

fun get_prop :: "json \<Rightarrow> string \<Rightarrow> error + json option" where
  \<comment> \<open>\<open>todo.k\<close>, for the keys the module reads: none of them is \<open>length\<close> or an index\<close>
  "get_prop JNull k = Inl TypeError"
| "get_prop (JObj kvs) k = Inr (map_of kvs k)"
| "get_prop (JBool b) k = Inr None"
| "get_prop (JNum n) k = Inr None"
| "get_prop (JStr s) k = Inr None"
| "get_prop (JArr xs) k = Inr None"

definition isDigit :: "char \<Rightarrow> bool" where
  "isDigit c = (48 \<le> (of_char c :: nat) \<and> (of_char c :: nat) \<le> 57)"

definition digits_value :: "string \<Rightarrow> nat" where
  "digits_value k = foldl (\<lambda>n c. 10 * n + ((of_char c :: nat) - 48)) 0 k"

definition is_array_index :: "string \<Rightarrow> bool" where
  \<comment> \<open>the decimal numeral, without leading zeros, of an integer up to \<open>2^32 - 2\<close>\<close>
  "is_array_index k \<longleftrightarrow>
     k \<noteq> [] \<and> list_all isDigit k \<and> (k = ''0'' \<or> hd k \<noteq> CHR ''0'')
     \<and> digits_value k < 4294967295"

fun replace_prop :: "(string \<times> 'v) list \<Rightarrow> string \<Rightarrow> 'v \<Rightarrow> (string \<times> 'v) list" where
  "replace_prop [] k v = []"
| "replace_prop ((k', v') # kvs) k v =
     (if k' = k then (k', v) # kvs else (k', v') # replace_prop kvs k v)"

fun insert_index :: "(string \<times> 'v) list \<Rightarrow> string \<Rightarrow> 'v \<Rightarrow> (string \<times> 'v) list" where
  \<comment> \<open>a new array index goes behind the smaller array indices\<close>
  "insert_index [] k v = [(k, v)]"
| "insert_index ((k', v') # kvs) k v =
     (if is_array_index k' \<and> digits_value k' < digits_value k
      then (k', v') # insert_index kvs k v
      else (k, v) # (k', v') # kvs)"

definition set_prop :: "(string \<times> 'v) list \<Rightarrow> string \<Rightarrow> 'v \<Rightarrow> (string \<times> 'v) list" where
  \<comment> \<open>\<open>o[k] = v\<close> on the object's own keys. An object lists its array indices first, in
      ascending order, and then its other keys in the order they were created\<close>
  "set_prop kvs k v =
     (if k \<in> fst ` set kvs then replace_prop kvs k v
      else if is_array_index k then insert_index kvs k v
      else kvs @ [(k, v)])"

definition assign :: "obj \<Rightarrow> obj \<Rightarrow> obj" where
  \<comment> \<open>\<open>{...target, ...source}\<close>\<close>
  "assign target source = foldl (\<lambda>acc (k, v). set_prop acc k v) target source"

fun decimal :: "nat \<Rightarrow> string" where
  "decimal n =
     (if n < 10 then [''0123456789'' ! n]
      else decimal (n div 10) @ [''0123456789'' ! (n mod 10)])"

declare decimal.simps [simp del]

fun own_props :: "json \<Rightarrow> obj" where
  \<comment> \<open>the keys an object spread copies: an array and a string spread their indices\<close>
  "own_props (JObj kvs) = kvs"
| "own_props (JArr xs) = map (\<lambda>(i, x). (decimal i, x)) (enumerate 0 xs)"
| "own_props (JStr s) = map (\<lambda>(i, c). (decimal i, JStr [c])) (enumerate 0 s)"
| "own_props JNull = []"
| "own_props (JBool b) = []"
| "own_props (JNum n) = []"

definition orNow :: "json option \<Rightarrow> world \<Rightarrow> json \<times> world" where
  \<comment> \<open>\<open>v || new Date().toISOString()\<close>\<close>
  "orNow v w =
     (case v of
        Some x \<Rightarrow> if truthy x then (x, w) else (let (d, w') = newDate w in (JStr d, w'))
      | None \<Rightarrow> (let (d, w') = newDate w in (JStr d, w')))"

definition orUuid :: "json option \<Rightarrow> world \<Rightarrow> json \<times> world" where
  \<comment> \<open>\<open>v || uuidv4()\<close>\<close>
  "orUuid v w =
     (case v of
        Some x \<Rightarrow> if truthy x then (x, w) else (let (u, w') = uuidv4 w in (JStr u, w'))
      | None \<Rightarrow> (let (u, w') = uuidv4 w in (JStr u, w')))"

definition createTodo_obj ::
  "world \<Rightarrow> json \<Rightarrow> json option \<Rightarrow> json option \<Rightarrow> (error + obj) \<times> world" where
  \<comment> \<open>\<open>createTodo\<close> on values of unknown shape: \<open>text.trim()\<close> throws unless \<open>text\<close> is a
      string\<close>
  "createTodo_obj w txt cat prio =
     (let (u, w1) = uuidv4 w in
      case txt of
        JStr s \<Rightarrow>
          (let (c, w2) = newDate w1;
               (m, w3) = newDate w2
           in (Inr [(''id'', JStr u), (''text'', JStr (trim s)), (''completed'', JBool False),
                    (''category'', orElse cat (JStr ''general'')),
                    (''priority'', orElse prio (JStr ''medium'')),
                    (''createdAt'', JStr c), (''updatedAt'', JStr m), (''dueDate'', JNull),
                    (''tags'', JArr []), (''description'', JStr '''')], w3))
      | JNull \<Rightarrow> (Inl TypeError, w1)
      | JBool b \<Rightarrow> (Inl TypeError, w1)
      | JNum n \<Rightarrow> (Inl TypeError, w1)
      | JArr xs \<Rightarrow> (Inl TypeError, w1)
      | JObj kvs \<Rightarrow> (Inl TypeError, w1))"

subsection \<open>Loading from localStorage\<close>

fun loadTodos_map :: "world \<Rightarrow> json list \<Rightarrow> (error + obj list) \<times> world" where
  "loadTodos_map w [] = (Inr [], w)"
| "loadTodos_map w (todo # rest) =
     (case createTodo_obj w (JStr '''') None None of
        (Inl e, w1) \<Rightarrow> (Inl e, w1)
      | (Inr defaults, w1) \<Rightarrow>
          (case get_prop todo ''createdAt'' of
             Inl e \<Rightarrow> (Inl e, w1)
           | Inr ca \<Rightarrow>
               (let (c, w2) = orNow ca w1 in
                case get_prop todo ''updatedAt'' of
                  Inl e \<Rightarrow> (Inl e, w2)
                | Inr ua \<Rightarrow>
                    (let (m, w3) = orNow ua w2;
                         loaded = assign (assign defaults (own_props todo))
                                    [(''createdAt'', c), (''updatedAt'', m)]
                     in case loadTodos_map w3 rest of
                          (Inl e, w4) \<Rightarrow> (Inl e, w4)
                        | (Inr others, w4) \<Rightarrow> (Inr (loaded # others), w4)))))"

definition loadTodos_try :: "world \<Rightarrow> (error + obj list) \<times> world" where
  \<comment> \<open>the body of the \<open>try\<close>\<close>
  "loadTodos_try w =
     (case getItem w of
        Inl e \<Rightarrow> (Inl e, w)
      | Inr None \<Rightarrow> (Inr [], w)
      | Inr (Some stored) \<Rightarrow>
          if stored = NotJSON [] then (Inr [], w)
          else
            (case JSON_parse stored of
               Inl e \<Rightarrow> (Inl e, w)
             | Inr (JArr xs) \<Rightarrow> loadTodos_map w xs
             | Inr JNull \<Rightarrow> (Inl TypeError, w)
             | Inr (JBool b) \<Rightarrow> (Inl TypeError, w)
             | Inr (JNum n) \<Rightarrow> (Inl TypeError, w)
             | Inr (JStr s) \<Rightarrow> (Inl TypeError, w)
             | Inr (JObj kvs) \<Rightarrow> (Inl TypeError, w)))"

definition loadTodos :: "world \<Rightarrow> (error + obj list) \<times> world" where
  "loadTodos w =
     (case loadTodos_try w of
        (Inl e, w') \<Rightarrow> (Inr [], console_error ''Error loading todos from localStorage:'' w')
      | (Inr todos, w') \<Rightarrow> (Inr todos, w'))"

subsection \<open>Export and import\<close>

definition exportTodos :: "world \<Rightarrow> todo list \<Rightarrow> bool \<times> world" where
  \<comment> \<open>the Blob, the object URL and the link throw when the document does not allow them\<close>
  "exportTodos w todos =
     (let dataStr = JSON_stringify (JArr (map toJSON todos)) in
      if dom_ok w then
        (let (d, w1) = newDate w;
             name = ''todos-'' @ takeWhile (\<lambda>c. c \<noteq> CHR ''T'') d @ ''.json''
         in (True, w1\<lparr>downloads := downloads w1 @ [(name, dataStr)]\<rparr>))
      else (False, console_error ''Error exporting todos:'' w))"

definition importable :: "json \<Rightarrow> bool" where
  \<comment> \<open>\<open>todo && typeof todo === 'object' && todo.text\<close>\<close>
  "importable todo =
     (truthy todo \<and>
      (case todo of JObj kvs \<Rightarrow> True | JArr xs \<Rightarrow> True | JNull \<Rightarrow> True
                  | JBool b \<Rightarrow> False | JNum n \<Rightarrow> False | JStr s \<Rightarrow> False) \<and>
      (case get_prop todo ''text'' of Inr (Some v) \<Rightarrow> truthy v | Inr None \<Rightarrow> False
                                    | Inl e \<Rightarrow> False))"

fun importTodos_map :: "world \<Rightarrow> json list \<Rightarrow> (error + obj list) \<times> world" where
  "importTodos_map w [] = (Inr [], w)"
| "importTodos_map w (todo # rest) =
     (case (get_prop todo ''text'', get_prop todo ''category'', get_prop todo ''priority'',
            get_prop todo ''id'', get_prop todo ''createdAt'') of
        (Inr (Some txt), Inr cat, Inr prio, Inr i, Inr ca) \<Rightarrow>
          (case createTodo_obj w txt cat prio of
             (Inl e, w1) \<Rightarrow> (Inl e, w1)
           | (Inr defaults, w1) \<Rightarrow>
               (let (i', w2) = orUuid i w1;
                    (c, w3) = orNow ca w2;
                    (m, w4) = newDate w3;
                    imported = assign (assign defaults (own_props todo))
                                 [(''id'', i'), (''createdAt'', c), (''updatedAt'', JStr m)]
                in case importTodos_map w4 rest of
                     (Inl e, w5) \<Rightarrow> (Inl e, w5)
                   | (Inr others, w5) \<Rightarrow> (Inr (imported # others), w5)))
      | _ \<Rightarrow> (Inl TypeError, w))"

definition importTodos_try :: "world \<Rightarrow> payload \<Rightarrow> (error + obj list) \<times> world" where
  \<comment> \<open>the body of the \<open>try\<close> in \<open>reader.onload\<close>\<close>
  "importTodos_try w content =
     (case JSON_parse content of
        Inl e \<Rightarrow> (Inl e, w)
      | Inr (JArr xs) \<Rightarrow> importTodos_map w (filter importable xs)
      | Inr JNull \<Rightarrow> (Inl (Error ''Invalid file format: expected array of todos''), w)
      | Inr (JBool b) \<Rightarrow> (Inl (Error ''Invalid file format: expected array of todos''), w)
      | Inr (JNum n) \<Rightarrow> (Inl (Error ''Invalid file format: expected array of todos''), w)
      | Inr (JStr s) \<Rightarrow> (Inl (Error ''Invalid file format: expected array of todos''), w)
      | Inr (JObj kvs) \<Rightarrow> (Inl (Error ''Invalid file format: expected array of todos''), w))"

definition importTodos :: "world \<Rightarrow> payload option \<Rightarrow> (error + obj list) \<times> world" where
  \<comment> \<open>the file's content, or \<open>None\<close> when reading it fails; \<open>Inl\<close> is the rejected promise\<close>
  "importTodos w file =
     (case file of
        None \<Rightarrow> (Inl (Error ''Error reading file''), w)
      | Some content \<Rightarrow>
          (case importTodos_try w content of
             (Inl e, w') \<Rightarrow> (Inl (Error ''Invalid JSON file or file format''), w')
           | (Inr validTodos, w') \<Rightarrow> (Inr validTodos, w')))"

subsection \<open>Statistics\<close>

text \<open>
  JavaScript numbers are IEEE 754 doubles. The counts are integers below \<open>2^53\<close>, which
  are doubles; the quotient \<open>completed / total\<close> and its product with \<open>100\<close> are the
  doubles nearest to the exact results, ties to the even significand. A non-negative
  double is \<open>mant * 2^expo\<close>; its significand has 53 bits. The range of the exponent is
  left out: the values here lie between \<open>2^-53\<close> and \<open>100\<close>.
\<close>

record double =
  mant :: nat
  expo :: int

fun bitLength :: "nat \<Rightarrow> nat" where
  "bitLength n = (if n = 0 then 0 else Suc (bitLength (n div 2)))"

declare bitLength.simps [simp del]

definition pow2 :: "int \<Rightarrow> nat" where
  \<comment> \<open>\<open>2^k\<close> for a non-negative \<open>k\<close>, and 1 for a negative one\<close>
  "pow2 k = 2 ^ nat k"

definition nearest_even :: "nat \<Rightarrow> nat \<Rightarrow> nat" where
  \<comment> \<open>the integer nearest to \<open>num / den\<close>, the even one of two\<close>
  "nearest_even num den =
     (let q = num div den; r = num mod den in
      if 2 * r < den then q
      else if den < 2 * r then q + 1
      else if even q then q else q + 1)"

definition round_double :: "nat \<Rightarrow> nat \<Rightarrow> double" where
  \<comment> \<open>the double nearest to \<open>p / q\<close>, for \<open>q > 0\<close>: with \<open>2^e0 \<le> p / q < 2^(e0 + 1)\<close>, the
      significand is \<open>p / q / 2^(e0 - 52)\<close> rounded to an integer\<close>
  "round_double p q =
     (if p = 0 then \<lparr>mant = 0, expo = 0\<rparr>
      else
        let k = int (bitLength p) - int (bitLength q);
            e0 = (if q * pow2 k \<le> p * pow2 (- k) then k else k - 1);
            e = e0 - 52
        in \<lparr>mant = nearest_even (p * pow2 (- e)) (q * pow2 e), expo = e\<rparr>)"

definition divide_nat :: "nat \<Rightarrow> nat \<Rightarrow> double" where
  \<comment> \<open>\<open>a / b\<close> on two counts\<close>
  "divide_nat a b = round_double a b"

definition times_nat :: "double \<Rightarrow> nat \<Rightarrow> double" where
  \<comment> \<open>\<open>d * n\<close>\<close>
  "times_nat d n = round_double (mant d * n * pow2 (expo d)) (pow2 (- expo d))"

definition Math_round :: "double \<Rightarrow> nat" where
  \<comment> \<open>\<open>Math.round\<close>: the integer nearest to the double, the greater one of two, which is
      \<open>\<lfloor>d + 1/2\<rfloor>\<close>\<close>
  "Math_round d =
     (2 * mant d * pow2 (expo d) + pow2 (- expo d)) div (2 * pow2 (- expo d))"

definition at_most :: "double \<Rightarrow> nat \<Rightarrow> bool" where
  \<comment> \<open>the double is at most the integer \<open>b\<close>\<close>
  "at_most d b \<longleftrightarrow> mant d * pow2 (expo d) \<le> b * pow2 (- expo d)"

datatype tally = Count nat | Text string

record stats =
  total' :: nat
  completed' :: nat
  active :: nat
  overdue :: nat
  completionRate :: nat
  byCategory :: "(string \<times> tally) list"
  byPriority :: "(string \<times> tally) list"

fun overdue_filter :: "world \<Rightarrow> todo list \<Rightarrow> todo list \<times> world" where
  \<comment> \<open>\<open>todo.dueDate && !todo.completed && new Date(todo.dueDate) < new Date()\<close>; the clock
      is read for the records that reach the comparison, which is false on \<open>NaN\<close>\<close>
  "overdue_filter w [] = ([], w)"
| "overdue_filter w (t # ts) =
     (case dueDate t of
        None \<Rightarrow> overdue_filter w ts
      | Some d \<Rightarrow>
          if d \<noteq> [] \<and> \<not> completed t then
            (let (now, w1) = newDate w;
                 (rest, w2) = overdue_filter w1 ts
             in (if js_less (timeKey w d) (timeKey w now) then t # rest else rest, w2))
          else overdue_filter w ts)"

definition count_up :: "world \<Rightarrow> (string \<times> tally) list \<Rightarrow> string \<Rightarrow> (string \<times> tally) list" where
  \<comment> \<open>\<open>acc[k] = (acc[k] || 0) + 1\<close> on an object that starts as \<open>{}\<close>. For a name every
      object inherits, \<open>acc[k]\<close> is the inherited function, and adding 1 to it appends
      \<open>1\<close> to its text; writing \<open>__proto__\<close> a string changes nothing\<close>
  "count_up w acc k =
     (case map_of acc k of
        Some (Count n) \<Rightarrow> set_prop acc k (Count (n + 1))
      | Some (Text s) \<Rightarrow> set_prop acc k (Text (s @ ''1''))
      | None \<Rightarrow>
          (case inherited w k of
             None \<Rightarrow> set_prop acc k (Count 1)
           | Some f \<Rightarrow> if k = ''__proto__'' then acc else set_prop acc k (Text (f @ ''1''))))"

definition getTodoStats :: "world \<Rightarrow> todo list \<Rightarrow> stats \<times> world" where
  "getTodoStats w todos =
     (let nTotal = length todos;
          nCompleted = length (filter (\<lambda>t. completed t) todos);
          nActive = nTotal - nCompleted;
          (late, w1) = overdue_filter w todos
      in (\<lparr>total' = nTotal, completed' = nCompleted, active = nActive, overdue = length late,
           completionRate =
             (if nTotal > 0 then Math_round (times_nat (divide_nat nCompleted nTotal) 100)
              else 0),
           byCategory = foldl (\<lambda>acc t. count_up w acc (category t)) [] todos,
           byPriority = foldl (\<lambda>acc t. count_up w acc (priority t)) [] todos\<rparr>, w1))"

subsection \<open>Sample data\<close>

definition milk :: todo where
  "milk = \<lparr>id' = ''1'', text' = ''Buy milk'', completed = False, category = ''shopping'',
     priority = ''low'', createdAt = ''2023-12-31T09:00:00.000Z'',
     updatedAt = ''2023-12-31T09:00:00.000Z'', dueDate = None, tags = [],
     description = ''''\<rparr>"

definition bread :: todo where
  "bread = \<lparr>id' = ''2'', text' = ''Buy bread'', completed = True, category = ''shopping'',
     priority = ''high'', createdAt = ''2023-12-31T09:00:00.000Z'',
     updatedAt = ''2023-12-31T09:00:00.000Z'', dueDate = Some ''2024-02-01'',
     tags = [''food''], description = ''''\<rparr>"

definition tea :: todo where
  "tea = \<lparr>id' = ''3'', text' = ''buy tea'', completed = False, category = ''Shopping'',
     priority = ''low'', createdAt = ''2023-12-31T09:00:00.000Z'',
     updatedAt = ''2023-12-31T09:00:00.000Z'', dueDate = None, tags = [],
     description = ''green''\<rparr>"

definition entry :: "string \<Rightarrow> string \<Rightarrow> todo" where
  "entry i created = milk\<lparr>id' := i, createdAt := created\<rparr>"

definition seven :: "todo list" where
  \<comment> \<open>seven records; the fifth was created \<open>yesterday\<close>, which is no date\<close>
  "seven =
     [entry ''0'' ''2024-01-01T00:00:00.000Z'', entry ''1'' ''2024-01-01T00:00:00.000Z'',
      entry ''2'' ''2024-01-02T00:00:00.000Z'', entry ''3'' ''2024-01-01T00:00:00.000Z'',
      entry ''4'' ''yesterday'', entry ''5'' ''2024-01-01T00:00:00.000Z'',
      entry ''6'' ''2024-01-01T00:00:00.000Z'']"

definition browser :: world where
  "browser = \<lparr>clock = (\<lambda>k. ''2024-01-01T00:00:00.'' @ decimal (100 + k) @ ''Z''), ticks = 0,
     uuids = (\<lambda>k. ''uuid-'' @ replicate (Suc k) CHR ''a''), drawn = 0,
     slot = None, readable = True, writable = True, console = [], dom_ok = True,
     downloads = [],
     getTime = map_of
       [(''2023-12-31T09:00:00.000Z'', 1704013200000),
        (''2024-01-01T00:00:00.000Z'', 1704067200000),
        (''2024-01-02T00:00:00.000Z'', 1704153600000)],
     inherited = map_of
       [(''constructor'', ''function Object() { [native code] }''),
        (''toString'', ''function toString() { [native code] }''),
        (''toLocaleString'', ''function toLocaleString() { [native code] }''),
        (''valueOf'', ''function valueOf() { [native code] }''),
        (''hasOwnProperty'', ''function hasOwnProperty() { [native code] }''),
        (''isPrototypeOf'', ''function isPrototypeOf() { [native code] }''),
        (''propertyIsEnumerable'', ''function propertyIsEnumerable() { [native code] }''),
        (''__defineGetter__'', ''function __defineGetter__() { [native code] }''),
        (''__defineSetter__'', ''function __defineSetter__() { [native code] }''),
        (''__lookupGetter__'', ''function __lookupGetter__() { [native code] }''),
        (''__lookupSetter__'', ''function __lookupSetter__() { [native code] }''),
        (''__proto__'', ''[object Object]'')]\<rparr>"


section \<open>Properties\<close>

subsection \<open>Helper lemmas\<close>

lemma all_dropWhile: "(\<forall>x\<in>set (dropWhile P s). P x) \<longleftrightarrow> (\<forall>x\<in>set s. P x)"
  by (induction s) auto

lemma trim_Nil [simp]: "trim [] = []"
  by (simp add: trim_def)

lemma trim_empty_iff: "trim s = [] \<longleftrightarrow> (\<forall>c\<in>set s. isWhiteSpace c)"
  by (simp add: trim_def dropWhile_eq_Nil_conv all_dropWhile)

lemma updateTodo_map_absent:
  "i \<notin> id' ` set ts \<Longrightarrow> updateTodo_map w ts i u = (ts, w)"
  by (induction ts) auto

lemma id_spread [simp]: "id' (spread t u) = orElse (upd_id u) (id' t)"
  by (simp add: spread_def)

lemma orElse_simps [simp]: "orElse None d = d" "orElse (Some x) d = x"
  by (simp_all add: orElse_def)

lemma newDate_simps [simp]:
  "fst (newDate w) = clock w (ticks w)"
  "clock (snd (newDate w)) = clock w"
  "ticks (snd (newDate w)) = Suc (ticks w)"
  "uuids (snd (newDate w)) = uuids w"
  "drawn (snd (newDate w)) = drawn w"
  by (simp_all add: newDate_def)




lemma fst_updateTodo: "fst (updateTodo w ts i u) = fst (updateTodo_map w ts i u)"
  by (simp add: updateTodo_def Let_def split: prod.splits)









lemma length_updateTodo_map [simp]: "length (fst (updateTodo_map w ts i u)) = length ts"
  by (induction ts arbitrary: w) (simp_all add: Let_def case_prod_beta)

lemma updateTodo_map_nth:
  "k < length ts \<Longrightarrow>
   fst (updateTodo_map w ts i u) ! k =
     (if id' (ts ! k) = i
      then (spread (ts ! k) u)\<lparr>updatedAt := clock w (ticks w + length (filter (\<lambda>t. id' t = i) (take k ts))),
             text' := (case upd_text u of
                         Some s \<Rightarrow> if s \<noteq> [] then trim s else text' (ts ! k)
                       | None \<Rightarrow> text' (ts ! k))\<rparr>
      else ts ! k)"
proof (induction ts arbitrary: w k)
  case Nil
  then show ?case by simp
next
  case (Cons t ts)
  show ?case
  proof (cases k)
    case 0
    then show ?thesis by (simp add: Let_def case_prod_beta split: option.splits)
  next
    case (Suc j)
    with Cons.prems have j: "j < length ts" by simp
    show ?thesis
      using Cons.IH [OF j, of "snd (newDate w)"] Cons.IH [OF j, of w] Suc
      by (simp add: Let_def case_prod_beta split: option.splits)
  qed
qed

lemma str_less_irrefl [simp]: "\<not> str_less s s"
  by (induction s) auto

lemma str_less_asym: "str_less a b \<Longrightarrow> \<not> str_less b a"
  by (induction a b rule: str_less.induct) auto

lemma js_less_irrefl [simp]: "\<not> js_less k k"
  by (cases k) auto

lemma js_less_asym: "js_less a b \<Longrightarrow> \<not> js_less b a"
  by (induction a b rule: js_less.induct) (auto dest: str_less_asym)

lemma compareTodos_same_key:
  "sortKey w sb a = sortKey w sb b \<Longrightarrow> compareTodos w sb ord a b = 0"
  by (simp add: compareTodos_def js_greater_def Let_def)

lemma compareTodos_antisym:
  "\<not> compareTodos w sb ord a b \<le> 0 \<Longrightarrow> compareTodos w sb ord b a \<le> 0"
  by (auto simp: compareTodos_def js_greater_def Let_def dest: js_less_asym split: if_splits)

lemma compareTodos_flip:
  "compareTodos w sb ord a b = 0 \<Longrightarrow> compareTodos w sb ord b a = 0"
  by (auto simp: compareTodos_def js_greater_def Let_def split: if_splits)

lemma consistent_asym:
  "consistent_on S cmp \<Longrightarrow> a \<in> S \<Longrightarrow> b \<in> S \<Longrightarrow> cmp a b < 0 \<Longrightarrow> \<not> cmp b a < 0"
  unfolding consistent_on_def by blast

lemma consistent_negtrans:
  "consistent_on S cmp \<Longrightarrow> a \<in> S \<Longrightarrow> b \<in> S \<Longrightarrow> c \<in> S \<Longrightarrow>
   \<not> cmp a b < 0 \<Longrightarrow> \<not> cmp b c < 0 \<Longrightarrow> \<not> cmp a c < 0"
  unfolding consistent_on_def by blast

lemma consistent_trans:
  "consistent_on S cmp \<Longrightarrow> a \<in> S \<Longrightarrow> b \<in> S \<Longrightarrow> c \<in> S \<Longrightarrow>
   cmp a b < 0 \<Longrightarrow> cmp b c < 0 \<Longrightarrow> cmp a c < 0"
  by (meson consistent_asym consistent_negtrans)

lemma consistent_subset: "consistent_on S cmp \<Longrightarrow> T \<subseteq> S \<Longrightarrow> consistent_on T cmp"
  unfolding consistent_on_def by blast

lemma binary_search_partition:
  "consistent_on S cmp \<Longrightarrow> set a \<subseteq> S \<Longrightarrow> pivot \<in> S \<Longrightarrow> ascending cmp a \<Longrightarrow>
   left \<le> right \<Longrightarrow> right \<le> length a \<Longrightarrow>
   \<forall>i<left. \<not> cmp pivot (a ! i) < 0 \<Longrightarrow>
   \<forall>i. right \<le> i \<and> i < length a \<longrightarrow> cmp pivot (a ! i) < 0 \<Longrightarrow>
   binary_search cmp pivot a left right \<le> length a \<and>
   (\<forall>i<binary_search cmp pivot a left right. \<not> cmp pivot (a ! i) < 0) \<and>
   (\<forall>i. binary_search cmp pivot a left right \<le> i \<and> i < length a \<longrightarrow> cmp pivot (a ! i) < 0)"
proof (induction cmp pivot a left right rule: binary_search.induct)
  case (1 cmp pivot a left right)
  show ?case
  proof (cases "left < right")
    case False
    with "1.prems" have eq: "left = right" by simp
    have "binary_search cmp pivot a left right = left"
      using False by (simp add: binary_search.simps [of cmp pivot a left right])
    with eq "1.prems" show ?thesis by simp
  next
    case True
    define mid where "mid = left + (right - left) div 2"
    have mid: "left \<le> mid" "mid < right" "mid < length a"
      using True "1.prems"(6) by (auto simp: mid_def)
    have inS: "a ! i \<in> S" if "i < length a" for i
      using that "1.prems"(2) by (meson nth_mem subsetD)
    have asc: "\<not> cmp (a ! j) (a ! i) < 0" if "i < j" "j < length a" for i j
      using sorted_wrt_nth_less [OF "1.prems"(4) that] .
    show ?thesis
    proof (cases "cmp pivot (a ! mid) < 0")
      case lt: True
      have right': "\<forall>i. mid \<le> i \<and> i < length a \<longrightarrow> cmp pivot (a ! i) < 0"
      proof (intro allI impI)
        fix i assume i: "mid \<le> i \<and> i < length a"
        show "cmp pivot (a ! i) < 0"
        proof (cases "i = mid")
          case True with lt show ?thesis by simp
        next
          case False
          with i have "mid < i" by simp
          then have "\<not> cmp (a ! i) (a ! mid) < 0" using asc i by blast
          then show ?thesis
            using lt consistent_negtrans [OF "1.prems"(1) "1.prems"(3) inS inS, of i mid] i mid(3)
            by blast
        qed
      qed
      have "binary_search cmp pivot a left right = binary_search cmp pivot a left mid"
        using True lt by (simp add: binary_search.simps [of cmp pivot a left right] mid_def Let_def)
      moreover note "1.IH"(1) [OF True mid_def lt "1.prems"(1-4) mid(1) _ "1.prems"(7) right']
      ultimately show ?thesis using mid by simp
    next
      case ge: False
      have left': "\<forall>i<mid + 1. \<not> cmp pivot (a ! i) < 0"
      proof (intro allI impI)
        fix i assume i: "i < mid + 1"
        show "\<not> cmp pivot (a ! i) < 0"
        proof (cases "i = mid")
          case True with ge show ?thesis by simp
        next
          case False
          with i have im: "i < mid" by simp
          then have "\<not> cmp (a ! mid) (a ! i) < 0" using asc mid(3) by blast
          then show ?thesis
            using ge consistent_negtrans [OF "1.prems"(1) "1.prems"(3) inS inS, of mid i] im mid(3)
            by simp
        qed
      qed
      have "binary_search cmp pivot a left right = binary_search cmp pivot a (mid + 1) right"
        using True ge by (simp add: binary_search.simps [of cmp pivot a left right] mid_def Let_def)
      moreover note "1.IH"(2) [OF True mid_def ge "1.prems"(1-4) _ "1.prems"(6) left' "1.prems"(8)]
      ultimately show ?thesis using mid by simp
    qed
  qed
qed

lemma insert_at_ascending:
  assumes c: "consistent_on S cmp" and sub: "set a \<subseteq> S" and p: "pivot \<in> S"
    and asc: "ascending cmp a" and k: "k \<le> length a"
    and before: "\<forall>i<k. \<not> cmp pivot (a ! i) < 0"
    and after: "\<forall>i. k \<le> i \<and> i < length a \<longrightarrow> cmp pivot (a ! i) < 0"
  shows "ascending cmp (take k a @ pivot # drop k a)"
proof -
  have tk: "\<not> cmp pivot x < 0" if "x \<in> set (take k a)" for x
  proof -
    from that obtain i where "i < length (take k a)" "take k a ! i = x"
      by (auto simp: in_set_conv_nth)
    with before show ?thesis by auto
  qed
  have dr: "cmp pivot y < 0" if "y \<in> set (drop k a)" for y
  proof -
    from that obtain i where "i < length (drop k a)" "drop k a ! i = y"
      by (auto simp: in_set_conv_nth)
    with after k show ?thesis by auto
  qed
  have dr': "\<not> cmp y pivot < 0" if "y \<in> set (drop k a)" for y
    using dr [OF that] consistent_asym [OF c p, of y] that sub set_drop_subset [of k a] by blast
  have "ascending cmp (take k a @ drop k a)" using asc by simp
  then have parts: "ascending cmp (take k a)" "ascending cmp (drop k a)"
    "\<forall>x\<in>set (take k a). \<forall>y\<in>set (drop k a). \<not> cmp y x < 0"
    unfolding sorted_wrt_append by auto
  show ?thesis
    unfolding sorted_wrt_append using parts tk dr' by auto
qed

lemma insert_at_filter:
  assumes k: "k \<le> length a"
    and after: "\<forall>i. k \<le> i \<and> i < length a \<longrightarrow> cmp pivot (a ! i) < 0"
    and P: "P pivot \<Longrightarrow> \<forall>y\<in>set a. P y \<longrightarrow> \<not> cmp pivot y < 0"
  shows "filter P (take k a @ pivot # drop k a) = filter P (a @ [pivot])"
proof -
  have dr: "cmp pivot y < 0" if "y \<in> set (drop k a)" for y
  proof -
    from that obtain i where "i < length (drop k a)" "drop k a ! i = y"
      by (auto simp: in_set_conv_nth)
    with after k show ?thesis by auto
  qed
  have split: "filter P a = filter P (take k a) @ filter P (drop k a)"
    by (metis append_take_drop_id filter_append)
  show ?thesis
  proof (cases "P pivot")
    case True
    have "filter P (drop k a) = []"
      unfolding filter_empty_conv using dr P [OF True] set_drop_subset [of k a] by blast
    with True split show ?thesis by simp
  next
    case False
    with split show ?thesis by simp
  qed
qed

lemma BinaryInsertionSort_correct:
  assumes c: "consistent_on S cmp"
    and P: "\<forall>x\<in>S. \<forall>y\<in>S. P x \<and> P y \<longrightarrow> \<not> cmp x y < 0"
  shows "set front \<union> set rest \<subseteq> S \<Longrightarrow> ascending cmp front \<Longrightarrow>
         ascending cmp (BinaryInsertionSort cmp front rest)
         \<and> filter P (BinaryInsertionSort cmp front rest) = filter P (front @ rest)
         \<and> set (BinaryInsertionSort cmp front rest) = set front \<union> set rest"
proof (induction rest arbitrary: front)
  case Nil
  then show ?case by simp
next
  case (Cons pivot rest)
  define k where "k = binary_search cmp pivot front 0 (length front)"
  have sub: "set front \<subseteq> S" and p: "pivot \<in> S" and rest: "set rest \<subseteq> S"
    using Cons.prems(1) by auto
  have part: "k \<le> length front \<and> (\<forall>i<k. \<not> cmp pivot (front ! i) < 0)
      \<and> (\<forall>i. k \<le> i \<and> i < length front \<longrightarrow> cmp pivot (front ! i) < 0)"
    unfolding k_def
    by (rule binary_search_partition [OF c sub p Cons.prems(2)]) simp_all
  let ?front = "take k front @ pivot # drop k front"
  have asc: "ascending cmp ?front"
    using part by (intro insert_at_ascending [OF c sub p Cons.prems(2)]) auto
  have fil: "filter P ?front = filter P (front @ [pivot])"
    using part P sub p by (intro insert_at_filter) auto
  have st: "set ?front = set front \<union> {pivot}"
    using set_append [of "take k front" "drop k front"] by auto
  have sub': "set ?front \<union> set rest \<subseteq> S"
    using st sub p rest by auto
  have step: "BinaryInsertionSort cmp front (pivot # rest) = BinaryInsertionSort cmp ?front rest"
    by (simp add: k_def Let_def)
  show ?case
    unfolding step using Cons.IH [OF sub' asc] fil st by auto
qed

lemma extend_run_append:
  "extend_run cmp desc prev xs = (run, left) \<Longrightarrow> run @ left = xs"
  by (induction xs arbitrary: prev run left) (auto split: if_splits prod.splits)

lemma extend_run_successively:
  "extend_run cmp desc prev xs = (run, left) \<Longrightarrow>
   successively (\<lambda>p c. if desc then cmp c p < 0 else \<not> cmp c p < 0) (prev # run)"
  by (induction xs arbitrary: prev run left) (auto split: if_splits prod.splits)

lemma extend_run_all:
  "successively (\<lambda>p c. \<not> cmp c p < 0) (prev # xs) \<Longrightarrow> extend_run cmp False prev xs = (xs, [])"
  by (induction xs arbitrary: prev) auto

lemma descending_filter_rev:
  assumes d: "sorted_wrt (\<lambda>x y. cmp y x < 0) xs"
    and P: "\<forall>x\<in>set xs. \<forall>y\<in>set xs. P x \<and> P y \<longrightarrow> \<not> cmp x y < 0"
  shows "filter P (rev xs) = filter P xs"
proof -
  have "length (filter P xs) \<le> 1"
    using d P
  proof (induction xs)
    case Nil
    then show ?case by simp
  next
    case (Cons x xs)
    show ?case
    proof (cases "P x")
      case True
      have "filter P xs = []"
        unfolding filter_empty_conv using Cons.prems True by auto
      with True show ?thesis by simp
    next
      case False
      with Cons show ?thesis by auto
    qed
  qed
  then have "rev (filter P xs) = filter P xs"
    by (cases "filter P xs") (auto simp: le_Suc_eq)
  then show ?thesis by (simp add: rev_filter)
qed

lemma CountAndMakeRun_correct:
  assumes c: "consistent_on S cmp" and sub: "set xs \<subseteq> S"
    and P: "\<forall>x\<in>S. \<forall>y\<in>S. P x \<and> P y \<longrightarrow> \<not> cmp x y < 0"
    and r: "CountAndMakeRun cmp xs = (run, left)"
  shows "ascending cmp run \<and> filter P (run @ left) = filter P xs \<and> set run \<union> set left = set xs"
proof (cases xs rule: remdups_adj.cases)
  case 1
  with r show ?thesis by auto
next
  case (2 x)
  with r show ?thesis by auto
next
  case (3 x0 x1 rest)
  then have xs: "xs = x0 # x1 # rest" by simp
  obtain ext where e: "extend_run cmp (cmp x1 x0 < 0) x1 rest = (ext, left)"
    and run: "run = (if cmp x1 x0 < 0 then rev (x0 # x1 # ext) else x0 # x1 # ext)"
    using r xs by (auto simp: Let_def split: prod.splits)
  have app: "ext @ left = rest" by (rule extend_run_append [OF e])
  have raw: "(x0 # x1 # ext) @ left = xs" using app xs by simp
  have subr: "set (x0 # x1 # ext) \<subseteq> S" using sub raw by (metis set_append Un_subset_iff)
  show ?thesis
  proof (cases "cmp x1 x0 < 0")
    case desc: True
    have "successively (\<lambda>p c. cmp c p < 0) (x0 # x1 # ext)"
      using extend_run_successively [OF e] desc by simp
    then have sw: "sorted_wrt (\<lambda>p c. cmp c p < 0) (x0 # x1 # ext)"
      by (subst successively_iff_sorted_wrt_strong [symmetric])
         (use consistent_trans [OF c] subr in blast)+
    have "sorted_wrt (\<lambda>x y. cmp x y < 0) (rev (x0 # x1 # ext))"
      using sw by (simp only: sorted_wrt_rev)
    then have asc: "ascending cmp (rev (x0 # x1 # ext))"
      by (rule sorted_wrt_mono_rel [rotated])
         (use consistent_asym [OF c] subr in auto)
    have fil: "filter P (rev (x0 # x1 # ext)) = filter P (x0 # x1 # ext)"
      by (rule descending_filter_rev [OF sw]) (use P subr in blast)
    have "filter P (run @ left) = filter P xs"
      using fil raw desc run by (metis filter_append)
    moreover have "set run \<union> set left = set xs"
      using raw desc run by (metis set_append set_rev)
    ultimately show ?thesis using asc desc run by simp
  next
    case asc: False
    have "successively (\<lambda>p c. \<not> cmp c p < 0) (x0 # x1 # ext)"
      using extend_run_successively [OF e] asc by simp
    then have "ascending cmp (x0 # x1 # ext)"
      by (subst successively_iff_sorted_wrt_strong [symmetric])
         (use consistent_negtrans [OF c] subr in blast)+
    then show ?thesis using asc run raw by auto
  qed
qed

lemma Array_sort_stable:
  assumes c: "consistent_on (set xs) cmp"
    and P: "\<forall>x\<in>set xs. \<forall>y\<in>set xs. P x \<and> P y \<longrightarrow> \<not> cmp x y < 0"
  shows "ascending cmp (Array_sort cmp xs) \<and> filter P (Array_sort cmp xs) = filter P xs
         \<and> set (Array_sort cmp xs) = set xs"
proof (cases "length xs < 2")
  case True
  then have "ascending cmp xs"
    by (cases xs rule: remdups_adj.cases) auto
  with True show ?thesis by (simp add: Array_sort_def)
next
  case False
  obtain run left where r: "CountAndMakeRun cmp xs = (run, left)"
    by (cases "CountAndMakeRun cmp xs")
  note run = CountAndMakeRun_correct [OF c subset_refl P r]
  have sub: "set run \<union> set left \<subseteq> set xs" using run by simp
  note ins = BinaryInsertionSort_correct [OF c P sub, of ] 
  have "Array_sort cmp xs = BinaryInsertionSort cmp run left"
    using False r by (simp add: Array_sort_def)
  with ins run show ?thesis by simp
qed

lemma Array_sort_ascending:
  assumes "successively (\<lambda>p c. \<not> cmp c p < 0) xs"
  shows "Array_sort cmp xs = xs"
proof (cases xs rule: remdups_adj.cases)
  case 1
  then show ?thesis by (simp add: Array_sort_def)
next
  case (2 x)
  then show ?thesis by (simp add: Array_sort_def)
next
  case (3 x0 x1 rest)
  with assms have "\<not> cmp x1 x0 < 0" "successively (\<lambda>p c. \<not> cmp c p < 0) (x1 # rest)"
    by simp_all
  with 3 show ?thesis
    by (simp add: Array_sort_def extend_run_all)
qed


lemma str_less_trans: "str_less a b \<Longrightarrow> str_less b c \<Longrightarrow> str_less a c"
proof (induction a b arbitrary: c rule: str_less.induct)
  case (4 x xs y ys)
  then show ?case by (cases c) auto
qed (auto elim: str_less.elims)

lemma str_less_total: "a \<noteq> b \<Longrightarrow> str_less a b \<or> str_less b a"
  by (induction a b rule: str_less.induct) (auto simp: linorder_neq_iff dest: of_char_eq_iff [THEN iffD1])

lemma str_less_negtrans:
  "\<not> str_less a b \<Longrightarrow> \<not> str_less b c \<Longrightarrow> \<not> str_less a c"
  by (metis str_less_trans str_less_total str_less_asym)

lemma js_less_negtrans:
  "comparable_keys [a, b, c] \<Longrightarrow> \<not> js_less a b \<Longrightarrow> \<not> js_less b c \<Longrightarrow> \<not> js_less a c"
  by (cases a; cases b; cases c)
     (auto simp: comparable_keys_def dest: str_less_negtrans)

lemma compareTodos_neg:
  "compareTodos w sb ord a b < 0 \<longleftrightarrow>
     (if ord = ''asc'' then js_less (sortKey w sb a) (sortKey w sb b)
      else js_less (sortKey w sb b) (sortKey w sb a))"
  by (auto simp: compareTodos_def js_greater_def Let_def dest: js_less_asym)

lemma comparable_keys_three:
  "comparable_keys (map f xs) \<Longrightarrow> a \<in> set xs \<Longrightarrow> b \<in> set xs \<Longrightarrow> c \<in> set xs \<Longrightarrow>
   comparable_keys [f a, f b, f c]"
  by (auto simp: comparable_keys_def list_all_iff)

lemma consistent_compareTodos:
  assumes "comparable_keys (map (sortKey w sb) todos)"
  shows "consistent_on (set todos) (compareTodos w sb ord)"
  unfolding consistent_on_def compareTodos_neg
proof (intro conjI ballI impI)
  fix a b
  assume "if ord = ''asc'' then js_less (sortKey w sb a) (sortKey w sb b)
          else js_less (sortKey w sb b) (sortKey w sb a)"
  then show "\<not> (if ord = ''asc'' then js_less (sortKey w sb b) (sortKey w sb a)
              else js_less (sortKey w sb a) (sortKey w sb b))"
    by (auto dest: js_less_asym split: if_splits)
next
  fix a b c
  assume abc: "a \<in> set todos" "b \<in> set todos" "c \<in> set todos"
    and 1: "\<not> (if ord = ''asc'' then js_less (sortKey w sb a) (sortKey w sb b)
              else js_less (sortKey w sb b) (sortKey w sb a))"
    and 2: "\<not> (if ord = ''asc'' then js_less (sortKey w sb b) (sortKey w sb c)
              else js_less (sortKey w sb c) (sortKey w sb b))"
  show "\<not> (if ord = ''asc'' then js_less (sortKey w sb a) (sortKey w sb c)
          else js_less (sortKey w sb c) (sortKey w sb a))"
  proof (cases "ord = ''asc''")
    case True
    with 1 2 js_less_negtrans [OF comparable_keys_three [OF assms abc]] show ?thesis by simp
  next
    case False
    with 1 2 js_less_negtrans [OF comparable_keys_three [OF assms abc(3) abc(2) abc(1)]]
    show ?thesis by simp
  qed
qed

lemma comparable_keys_always:
  "sb \<in> {''text'', ''category'', ''completed''} \<Longrightarrow> comparable_keys (map (sortKey w sb) todos)"
  by (auto simp: comparable_keys_def sortKey_def list_all_iff)

lemma sample_times:
  "timeKey browser ''2024-01-01T00:00:00.000Z'' = KNum 1704067200000"
  "timeKey browser ''2024-01-02T00:00:00.000Z'' = KNum 1704153600000"
  "timeKey browser ''yesterday'' = KNaN"
  by (simp_all add: timeKey_def browser_def)

lemma sortKey_entry: "sortKey w ''createdAt'' (entry i d) = timeKey w d"
  by (simp add: sortKey_def entry_def)

lemma compare_entries:
  "compareTodos w ''createdAt'' ''asc'' (entry i c) (entry j d) =
     (if js_less (timeKey w d) (timeKey w c) then 1
      else if js_less (timeKey w c) (timeKey w d) then - 1 else 0)"
  by (simp add: compareTodos_def sortKey_entry js_greater_def)

lemma BinaryInsertionSort_step:
  "binary_search cmp pivot front 0 n = k \<Longrightarrow> n = length front \<Longrightarrow>
   BinaryInsertionSort cmp front (pivot # rest)
     = BinaryInsertionSort cmp (take k front @ pivot # drop k front) rest"
  by simp

lemma sample_priorities:
  "sortKey browser ''priority'' milk = KNum 1"
  "sortKey browser ''priority'' bread = KNum 3"
  "sortKey browser ''priority'' tea = KNum 1"
  by (simp_all add: sortKey_def milk_def bread_def tea_def)

lemma sample_clock:
  "ticks browser = 0"
  "clock browser 0 = ''2024-01-01T00:00:00.100Z''"
  "clock browser 1 = ''2024-01-01T00:00:00.101Z''"
  "clock browser 2 = ''2024-01-01T00:00:00.102Z''"
  by (simp_all add: browser_def decimal.simps)

lemma sample_distinct: "milk \<noteq> bread" "milk \<noteq> tea" "bread \<noteq> tea"
  by (simp_all add: milk_def bread_def tea_def)

lemma importable_toJSON [simp]: "importable (toJSON t) \<longleftrightarrow> text' t \<noteq> []"
  by (simp add: importable_def toJSON_def toObject_def)

lemma filter_importable_toJSON:
  "\<forall>t\<in>set ts. text' t \<noteq> [] \<Longrightarrow> filter importable (map toJSON ts) = map toJSON ts"
  by (induction ts) simp_all

lemma import_one:
  assumes "text' t \<noteq> []" "id' t \<noteq> []" "createdAt t \<noteq> []"
  shows "importTodos_map w (toJSON t # rest) =
     (case importTodos_map (w\<lparr>drawn := Suc (drawn w), ticks := ticks w + 3\<rparr>) rest of
        (Inl e, w5) \<Rightarrow> (Inl e, w5)
      | (Inr others, w5) \<Rightarrow>
          (Inr (toObject (t\<lparr>updatedAt := clock w (ticks w + 2)\<rparr>) # others), w5))"
proof -
  obtain r w5 where
    rest: "importTodos_map (w\<lparr>drawn := Suc (drawn w), ticks := Suc (Suc (Suc (ticks w)))\<rparr>) rest
             = (r, w5)"
    by (cases "importTodos_map (w\<lparr>drawn := Suc (drawn w), ticks := Suc (Suc (Suc (ticks w)))\<rparr>) rest")
  show ?thesis
    using assms rest
    by (cases r)
       (simp_all add: toJSON_def toObject_def createTodo_obj_def uuidv4_def newDate_def
          orUuid_def orNow_def assign_def set_prop_def Let_def numeral_3_eq_3
          split: option.splits)
qed

lemma import_all:
  "\<forall>t\<in>set ts. text' t \<noteq> [] \<and> id' t \<noteq> [] \<and> createdAt t \<noteq> [] \<Longrightarrow>
   fst (importTodos_map w (map toJSON ts)) =
     Inr (map (\<lambda>k. toObject ((ts ! k)\<lparr>updatedAt := clock w (ticks w + 3 * k + 2)\<rparr>))
            [0..<length ts])"
proof (induction ts arbitrary: w)
  case Nil
  then show ?case by simp
next
  case (Cons t ts)
  let ?w = "w\<lparr>drawn := Suc (drawn w), ticks := ticks w + 3\<rparr>"
  from Cons.prems have t: "text' t \<noteq> []" "id' t \<noteq> []" "createdAt t \<noteq> []"
    and ts: "\<forall>t\<in>set ts. text' t \<noteq> [] \<and> id' t \<noteq> [] \<and> createdAt t \<noteq> []"
    by simp_all
  obtain r w5 where rest: "importTodos_map ?w (map toJSON ts) = (r, w5)"
    by (cases "importTodos_map ?w (map toJSON ts)")
  from Cons.IH [OF ts, of ?w] rest
  have r: "r = Inr (map (\<lambda>k. toObject ((ts ! k)\<lparr>updatedAt := clock w (ticks w + 3 * Suc k + 2)\<rparr>))
                    [0..<length ts])"
    by (simp add: add.commute add.left_commute)
  show ?case
    using import_one [OF t, of w "map toJSON ts"] rest r
    by (simp add: map_upt_Suc del: upt_Suc)
qed

lemma fst_importTodos_array:
  "fst (importTodos_map w (filter importable xs)) = Inr r \<Longrightarrow>
   fst (importTodos w (Some (JSON_stringify (JArr xs)))) = Inr r"
  by (cases "importTodos_map w (filter importable xs)")
     (simp add: importTodos_def importTodos_try_def JSON_parse_def JSON_stringify_def)

lemma getTodoStats_counts:
  "total' (fst (getTodoStats w todos)) = length todos"
  "completed' (fst (getTodoStats w todos)) = length (filter completed todos)"
  "active (fst (getTodoStats w todos)) = length todos - length (filter completed todos)"
  "completionRate (fst (getTodoStats w todos)) =
     (if length todos > 0
      then Math_round (times_nat (divide_nat (length (filter completed todos)) (length todos)) 100)
      else 0)"
  by (simp_all add: getTodoStats_def Let_def case_prod_beta)

lemma bitLength_numeral [simp]:
  "bitLength 0 = 0"
  "bitLength (Suc 0) = Suc 0"
  "bitLength (numeral v) = Suc (bitLength (numeral v div 2))"
  by (simp_all add: bitLength.simps [of 0] bitLength.simps [of "Suc 0"]
      bitLength.simps [of "numeral v"])

lemma rate_23_of_40: "Math_round (times_nat (divide_nat 23 40) 100) = 57"
  by (simp add: Math_round_def times_nat_def divide_nat_def round_double_def nearest_even_def
      pow2_def Let_def)

lemma pow2_pos [simp]: "0 < pow2 k"
  by (simp add: pow2_def)

lemma pow2_neg [simp]: "k \<le> 0 \<Longrightarrow> pow2 k = 1"
  by (simp add: pow2_def)

lemma bitLength_le_iff: "bitLength n \<le> j \<longleftrightarrow> n < 2 ^ j"
proof (induction n arbitrary: j rule: bitLength.induct)
  case (1 n)
  show ?case
  proof (cases "n = 0")
    case True
    then show ?thesis by (simp add: bitLength.simps)
  next
    case False
    show ?thesis
    proof (cases j)
      case 0
      with False show ?thesis by (simp add: bitLength.simps [of n])
    next
      case (Suc i)
      have "bitLength n \<le> Suc i \<longleftrightarrow> bitLength (n div 2) \<le> i"
        using False by (simp add: bitLength.simps [of n])
      also have "\<dots> \<longleftrightarrow> n div 2 < 2 ^ i"
        using "1.IH" [OF False] .
      also have "\<dots> \<longleftrightarrow> n < 2 ^ Suc i"
        by auto
      finally show ?thesis using Suc by simp
    qed
  qed
qed

lemma bitLength_bound:
  assumes "p \<le> 128 * q"
  shows "bitLength p \<le> bitLength q + 7"
proof -
  have "q < 2 ^ bitLength q"
    using bitLength_le_iff [of q "bitLength q"] by simp
  then have "128 * q < 2 ^ (bitLength q + 7)"
    by (simp add: power_add)
  with assms have "p < 2 ^ (bitLength q + 7)" by simp
  then show ?thesis by (simp add: bitLength_le_iff)
qed

lemma nearest_even_le:
  assumes "0 < den" "num \<le> N * den"
  shows "nearest_even num den \<le> N"
proof -
  have q: "num div den \<le> N"
    using assms by (metis div_le_mono div_mult_self_is_m)
  show ?thesis
  proof (cases "num div den = N")
    case True
    then have "N * den \<le> num"
      by (metis div_times_less_eq_dividend)
    with assms have "num = N * den" by simp
    with assms(1) show ?thesis by (simp add: nearest_even_def)
  next
    case False
    with q have "num div den < N" by simp
    then show ?thesis by (simp add: nearest_even_def Let_def)
  qed
qed

lemma round_double_at_most:
  assumes "0 < q" "p \<le> b * q" "b \<le> 128"
  shows "at_most (round_double p q) b"
proof (cases "p = 0")
  case True
  then show ?thesis by (simp add: round_double_def at_most_def)
next
  case False
  define k where "k = int (bitLength p) - int (bitLength q)"
  define e0 where "e0 = (if q * pow2 k \<le> p * pow2 (- k) then k else k - 1)"
  define e where "e = e0 - 52"
  have "p \<le> 128 * q"
    using assms(2,3) by (meson le_trans mult_le_mono1)
  then have "k \<le> 7"
    using bitLength_bound [of p q] by (simp add: k_def)
  then have e: "e < 0" by (simp add: e_def e0_def)
  have rd: "round_double p q = \<lparr>mant = nearest_even (p * pow2 (- e)) (q * pow2 e), expo = e\<rparr>"
    using False by (simp add: round_double_def Let_def k_def e0_def e_def)
  have "p * pow2 (- e) \<le> (b * pow2 (- e)) * q"
    using assms(2) by (simp add: mult.assoc mult.left_commute mult_le_mono1 mult.commute)
  then have "nearest_even (p * pow2 (- e)) q \<le> b * pow2 (- e)"
    using assms(1) by (intro nearest_even_le) simp_all
  with e show ?thesis
    by (simp add: rd at_most_def)
qed

lemma divide_nat_at_most_1:
  "0 < t \<Longrightarrow> c \<le> t \<Longrightarrow> at_most (divide_nat c t) 1"
  unfolding divide_nat_def by (rule round_double_at_most) simp_all

lemma times_100_at_most:
  assumes "at_most d 1"
  shows "at_most (times_nat d 100) 100"
  unfolding times_nat_def
proof (rule round_double_at_most)
  show "0 < pow2 (- expo d)" by simp
  show "mant d * 100 * pow2 (expo d) \<le> 100 * pow2 (- expo d)"
    using assms by (simp add: at_most_def)
  show "(100::nat) \<le> 128" by simp
qed

lemma Math_round_at_most:
  assumes "at_most d 100"
  shows "Math_round d \<le> 100"
proof -
  let ?x = "mant d * pow2 (expo d)" and ?y = "pow2 (- expo d)"
  have y: "0 < ?y" by simp
  have x: "?x \<le> 100 * ?y"
    using assms by (simp add: at_most_def)
  have "2 * ?x + ?y < 101 * (2 * ?y)"
    using x y by linarith
  then have "(2 * ?x + ?y) div (2 * ?y) < 101"
    using y by (simp add: less_mult_imp_div_less)
  then show ?thesis by (simp add: Math_round_def mult.assoc)
qed

lemma getTodoStats_invariants:
  "total' (fst (getTodoStats w todos))
     = completed' (fst (getTodoStats w todos)) + active (fst (getTodoStats w todos))
   \<and> completionRate (fst (getTodoStats w todos)) \<le> 100
   \<and> (total' (fst (getTodoStats w todos)) = 0 \<longrightarrow> completionRate (fst (getTodoStats w todos)) = 0)"
proof -
  have le: "length (filter completed todos) \<le> length todos" by simp
  have "Math_round (times_nat (divide_nat (length (filter completed todos)) (length todos)) 100)
          \<le> 100" if "0 < length todos"
    using that le
    by (intro Math_round_at_most times_100_at_most divide_nat_at_most_1)
  then show ?thesis
    using le by (simp add: getTodoStats_counts)
qed

subsection \<open>Creating a todo\<close>





text \<open>
  Claim C4. \<open>addTodo\<close> throws exactly when the text is empty after trimming, that is
  when every character of it is white space; \<open>addTodo("")\<close> and \<open>addTodo("   ")\<close>
  both throw. When it throws, nothing has been written: the browser, and with it the
  stored list, is as it was.
\<close>

theorem addTodo_validation:
  "((\<exists>e. fst (addTodo w todos txt cat prio) = Inl e) \<longleftrightarrow> trim txt = [])
   \<and> (trim txt = [] \<longleftrightarrow> (\<forall>c\<in>set txt. isWhiteSpace c))
   \<and> (trim txt = [] \<longrightarrow>
        addTodo w todos txt cat prio = (Inl (Error ''Todo text cannot be empty''), w))
   \<and> addTodo w todos '''' cat prio = (Inl (Error ''Todo text cannot be empty''), w)
   \<and> addTodo w todos ''   '' cat prio = (Inl (Error ''Todo text cannot be empty''), w)"
proof (intro conjI)
  show "(\<exists>e. fst (addTodo w todos txt cat prio) = Inl e) \<longleftrightarrow> trim txt = []"
    by (cases "trim txt = []") (auto simp: addTodo_def Let_def split: prod.splits)
  show "trim txt = [] \<longleftrightarrow> (\<forall>c\<in>set txt. isWhiteSpace c)"
    by (rule trim_empty_iff)
  show "trim txt = [] \<longrightarrow>
        addTodo w todos txt cat prio = (Inl (Error ''Todo text cannot be empty''), w)"
    by (simp add: addTodo_def)
  show "addTodo w todos '''' cat prio = (Inl (Error ''Todo text cannot be empty''), w)"
    by (simp add: addTodo_def)
  show "addTodo w todos ''   '' cat prio = (Inl (Error ''Todo text cannot be empty''), w)"
    by (simp add: addTodo_def trim_def isWhiteSpace_def)
qed

theorem addTodo_validation_witness:
  "trim [CHR 0x09, CHR '' ''] = [] \<and> isWhiteSpace (CHR 0x09) \<and> isWhiteSpace (CHR '' '')
   \<and> addTodo browser [milk] [CHR 0x09, CHR '' ''] None None
       = (Inl (Error ''Todo text cannot be empty''), browser)"
proof -
  have h: "\<forall>c\<in>set [CHR 0x09, CHR '' '']. isWhiteSpace c"
    by (simp add: isWhiteSpace_def)
  show ?thesis
    using h addTodo_validation [of browser "[milk]" "[CHR 0x09, CHR '' '']" None None]
    by simp
qed

subsection \<open>Ids that no todo has\<close>

text \<open>
  Claim C6. For every list and every id that no record of the list has, \<open>deleteTodo\<close>,
  \<open>updateTodo\<close> (with any partial fields) and \<open>toggleTodo\<close> each return the input list,
  record for record.
\<close>

theorem absent_id_noop:
  assumes "i \<notin> id' ` set todos"
  shows "fst (deleteTodo w todos i) = todos
       \<and> fst (updateTodo w todos i u) = todos
       \<and> fst (toggleTodo w todos i) = todos"
  using assms
  by (auto simp: deleteTodo_def updateTodo_def toggleTodo_def updateTodo_map_absent Let_def
      split: prod.splits intro!: filter_True)

theorem absent_id_noop_witness:
  "''2'' \<notin> id' ` set [milk] \<and> fst (deleteTodo browser [milk] ''2'') = [milk]
   \<and> fst (updateTodo browser [milk] ''2'' (no_updates\<lparr>upd_text := Some ''x''\<rparr>)) = [milk]
   \<and> fst (toggleTodo browser [milk] ''2'') = [milk]"
proof -
  have h: "''2'' \<notin> id' ` set [milk]" by (simp add: milk_def)
  show ?thesis using h absent_id_noop [OF h] by blast
qed

subsection \<open>Filtering by status\<close>

text \<open>
  Claim C10. For every list and every status that is neither \<open>active\<close> nor
  \<open>completed\<close> (so also \<open>all\<close>, the empty string and any unrecognised string), filtering
  by status returns the list itself, same records in the same order.
\<close>

theorem filterTodos_default:
  "f \<noteq> ''active'' \<Longrightarrow> f \<noteq> ''completed'' \<Longrightarrow> filterTodos todos f = todos"
  by (simp add: filterTodos_def)

theorem filterTodos_default_witness:
  "''all'' \<noteq> ''active'' \<and> ''all'' \<noteq> ''completed'' \<and> filterTodos [milk] ''all'' = [milk]"
proof -
  have h1: "''all'' \<noteq> ''active''" and h2: "''all'' \<noteq> ''completed''" by simp_all
  show ?thesis using h1 h2 filterTodos_default [OF h1 h2] by blast
qed

subsection \<open>Ids\<close>






subsection \<open>Updating the text\<close>

text \<open>
  Claim C5, as the code has it. For partial fields that hold a text, \<open>updateTodo\<close>
  returns a list of the same length in which every record with the given id is the
  spread of the partial fields over it, with its text set to the trimmed new text when
  that text is not the empty string and kept when it is, and with \<open>updatedAt\<close> set to
  the clock reading taken for that record; every other record is the one of the input.
\<close>

theorem updateTodo_text:
  assumes "upd_text u = Some s"
  shows "length (fst (updateTodo w todos i u)) = length todos \<and>
     (\<forall>k<length todos.
        fst (updateTodo w todos i u) ! k =
          (if id' (todos ! k) = i
           then (spread (todos ! k) u)
                  \<lparr>updatedAt := clock w (ticks w + length (filter (\<lambda>t. id' t = i) (take k todos))),
                   text' := (if s \<noteq> [] then trim s else text' (todos ! k))\<rparr>
           else todos ! k))"
  using assms by (simp add: fst_updateTodo updateTodo_map_nth)

theorem updateTodo_text_witness:
  "upd_text (no_updates\<lparr>upd_text := Some ''  Buy oat milk ''\<rparr>) = Some ''  Buy oat milk ''
   \<and> fst (updateTodo browser [milk, bread] ''1'' (no_updates\<lparr>upd_text := Some ''  Buy oat milk ''\<rparr>))
       = [milk\<lparr>text' := ''Buy oat milk'', updatedAt := ''2024-01-01T00:00:00.100Z''\<rparr>, bread]"
proof -
  let ?u = "no_updates\<lparr>upd_text := Some ''  Buy oat milk ''\<rparr>"
  have h: "upd_text ?u = Some ''  Buy oat milk ''" by simp
  have t: "trim ''  Buy oat milk '' = ''Buy oat milk''"
    by (simp add: trim_def isWhiteSpace_def)
  have l: "length (fst (updateTodo browser [milk, bread] ''1'' ?u)) = 2"
    using updateTodo_text [OF h, of browser "[milk, bread]" "''1''"] by simp
  have k0: "fst (updateTodo browser [milk, bread] ''1'' ?u) ! 0
              = milk\<lparr>text' := ''Buy oat milk'', updatedAt := ''2024-01-01T00:00:00.100Z''\<rparr>"
    using updateTodo_text [OF h, of browser "[milk, bread]" "''1''"]
    by (simp add: t milk_def bread_def sample_clock spread_def no_updates_def)
  have k1: "fst (updateTodo browser [milk, bread] ''1'' ?u) ! 1 = bread"
    using updateTodo_text [OF h, of browser "[milk, bread]" "''1''"]
    by (simp add: milk_def bread_def)
  have "fst (updateTodo browser [milk, bread] ''1'' ?u)
          = [milk\<lparr>text' := ''Buy oat milk'', updatedAt := ''2024-01-01T00:00:00.100Z''\<rparr>, bread]"
    using l k0 k1 by (auto simp: list_eq_iff_nth_eq less_Suc_eq numeral_2_eq_2)
  with h show ?thesis by simp
qed


text \<open>
  The guard \<open>updates.text ? ... : todo.text\<close> takes the empty string for an absent
  text: \<open>updateTodo(list, "1", {text: ""})\<close> keeps \<open>Buy milk\<close>, whereas the empty
  string trimmed is the empty string.
\<close>

theorem updateTodo_empty_text_kept:
  "map text' (fst (updateTodo browser [milk] ''1'' (no_updates\<lparr>upd_text := Some ''''\<rparr>)))
     = [''Buy milk'']
   \<and> ''Buy milk'' \<noteq> trim ''''"
  by (simp add: fst_updateTodo milk_def no_updates_def Let_def case_prod_beta spread_def)

subsection \<open>Sorting is stable\<close>

text \<open>
  Claim C8, as the code has it. For every list, key and order such that the sort keys of
  the list are all numbers or all strings (no date that does not parse, no priority that
  names an inherited property; under the keys \<open>text\<close>, \<open>category\<close> and \<open>completed\<close> that is
  every list): the records with one and the same sort key stand in the sorted list in
  the order they had in the input; so do any two records the comparator finds equal; a
  list in which no record is followed by one the comparator puts before it comes back as
  it is; and sorting a sorted list again changes nothing.
\<close>

theorem sortTodos_stable:
  assumes "orElse sortBy ''createdAt'' \<in> {''text'', ''category'', ''completed''}
           \<or> comparable_keys (map (sortKey w (orElse sortBy ''createdAt'')) todos)"
  shows "(\<forall>k. filter (\<lambda>t. sortKey w (orElse sortBy ''createdAt'') t = k) (sortTodos w todos sortBy ord)
            = filter (\<lambda>t. sortKey w (orElse sortBy ''createdAt'') t = k) todos)
   \<and> (\<forall>a b. compareTodos w (orElse sortBy ''createdAt'') (orElse ord ''desc'') a b = 0 \<longrightarrow>
        filter (\<lambda>t. t = a \<or> t = b) (sortTodos w todos sortBy ord)
          = filter (\<lambda>t. t = a \<or> t = b) todos)
   \<and> (successively
         (\<lambda>a b. compareTodos w (orElse sortBy ''createdAt'') (orElse ord ''desc'') a b \<le> 0) todos
        \<longrightarrow> sortTodos w todos sortBy ord = todos)
   \<and> sortTodos w (sortTodos w todos sortBy ord) sortBy ord = sortTodos w todos sortBy ord"
proof -
  let ?sb = "orElse sortBy ''createdAt''" and ?ord = "orElse ord ''desc''"
  let ?c = "compareTodos w ?sb ?ord"
  have keys: "comparable_keys (map (sortKey w ?sb) todos)"
    using assms comparable_keys_always by blast
  have c: "consistent_on (set todos) ?c"
    by (rule consistent_compareTodos [OF keys])
  have flip: "\<not> ?c y x < 0" if "?c x y \<le> 0" for x y
    using that by (auto simp: compareTodos_def js_greater_def Let_def dest: js_less_asym split: if_splits)
  have 1: "filter (\<lambda>t. sortKey w ?sb t = k) (sortTodos w todos sortBy ord)
            = filter (\<lambda>t. sortKey w ?sb t = k) todos" for k
  proof -
    have P: "\<forall>x\<in>set todos. \<forall>y\<in>set todos.
               sortKey w ?sb x = k \<and> sortKey w ?sb y = k \<longrightarrow> \<not> ?c x y < 0"
      by (simp add: compareTodos_same_key)
    show ?thesis
      unfolding sortTodos_def using Array_sort_stable [OF c P] by blast
  qed
  have 2: "filter (\<lambda>t. t = a \<or> t = b) (sortTodos w todos sortBy ord)
          = filter (\<lambda>t. t = a \<or> t = b) todos" if ab: "?c a b = 0" for a b
  proof -
    have ba: "?c b a = 0" by (rule compareTodos_flip [OF ab])
    have P: "\<forall>x\<in>set todos. \<forall>y\<in>set todos.
               (x = a \<or> x = b) \<and> (y = a \<or> y = b) \<longrightarrow> \<not> ?c x y < 0"
      using ab ba by (auto simp: compareTodos_same_key)
    show ?thesis
      unfolding sortTodos_def using Array_sort_stable [OF c P] by blast
  qed
  have 3: "sortTodos w todos sortBy ord = todos" if "successively (\<lambda>a b. ?c a b \<le> 0) todos"
    unfolding sortTodos_def
    by (rule Array_sort_ascending) (rule successively_mono [OF that], rule flip)
  have asc: "ascending ?c (Array_sort ?c todos)"
    using Array_sort_stable [OF c, of "\<lambda>t. False"] by simp
  have 4: "sortTodos w (sortTodos w todos sortBy ord) sortBy ord = sortTodos w todos sortBy ord"
    unfolding sortTodos_def
    by (rule Array_sort_ascending) (rule successively_if_sorted_wrt [OF asc])
  show ?thesis using 1 2 3 4 by blast
qed


theorem sortTodos_stable_witness:
  "comparable_keys (map (sortKey browser ''priority'') [milk, bread, tea])
   \<and> compareTodos browser ''priority'' ''desc'' milk tea = 0
   \<and> filter (\<lambda>t. t = milk \<or> t = tea)
        (sortTodos browser [milk, bread, tea] (Some ''priority'') (Some ''desc'')) = [milk, tea]
   \<and> successively (\<lambda>a b. compareTodos browser ''priority'' ''desc'' a b \<le> 0) [bread, milk, tea]
   \<and> sortTodos browser [bread, milk, tea] (Some ''priority'') (Some ''desc'') = [bread, milk, tea]
   \<and> sortTodos browser [milk, bread, tea] (Some ''priority'') (Some ''desc'') = [bread, milk, tea]"
proof -
  let ?c = "compareTodos browser ''priority'' ''desc''"
  have k: "comparable_keys (map (sortKey browser ''priority'') [milk, bread, tea])"
    by (simp add: comparable_keys_def sample_priorities)
  have k': "comparable_keys (map (sortKey browser ''priority'') [bread, milk, tea])"
    by (simp add: comparable_keys_def sample_priorities)
  have c: "?c milk tea = 0" "?c bread milk < 0" "\<not> ?c tea bread < 0" "\<not> ?c tea milk < 0"
    by (simp_all add: compareTodos_def sample_priorities js_greater_def)
  have s: "successively (\<lambda>a b. ?c a b \<le> 0) [bread, milk, tea]"
    by (simp add: compareTodos_def sample_priorities js_greater_def)
  have r: "CountAndMakeRun ?c [milk, bread, tea] = ([bread, milk], [tea])"
    by (simp add: c)
  have b: "binary_search ?c tea [bread, milk] 0 2 = 2"
    by (simp add: binary_search.simps c)
  have l: "\<not> length [milk, bread, tea] < 2" by simp
  have "Array_sort ?c [milk, bread, tea] = BinaryInsertionSort ?c [bread, milk] [tea]"
    by (simp only: Array_sort_def r l if_False Let_def prod.case)
  also have "\<dots> = [bread, milk, tea]"
    by (subst BinaryInsertionSort_step [OF b]) simp_all
  finally have e: "sortTodos browser [milk, bread, tea] (Some ''priority'') (Some ''desc'')
             = [bread, milk, tea]"
    by (simp add: sortTodos_def)
  note t1 = sortTodos_stable [of "Some ''priority''" browser "[milk, bread, tea]" "Some ''desc''"]
  note t2 = sortTodos_stable [of "Some ''priority''" browser "[bread, milk, tea]" "Some ''desc''"]
  have f: "filter (\<lambda>t. t = milk \<or> t = tea)
             (sortTodos browser [milk, bread, tea] (Some ''priority'') (Some ''desc''))
           = filter (\<lambda>t. t = milk \<or> t = tea) [milk, bread, tea]"
    using t1 k c(1) by simp
  have g: "sortTodos browser [bread, milk, tea] (Some ''priority'') (Some ''desc'')
             = [bread, milk, tea]"
    using t2 k' s by simp
  show ?thesis using k c(1) s e f g sample_distinct by simp
qed

text \<open>
  A date that does not parse gives the key \<open>NaN\<close>, which the comparator finds equal to
  every key, and the comparator is no longer consistent. Of seven records sorted by
  \<open>createdAt\<close>, ascending, the fifth created \<open>yesterday\<close>: the sixth record is inserted
  behind it, the seventh by binary search in front of the third, and so in front of the
  sixth, which has the same key.
\<close>

theorem sortTodos_unstable_with_NaN:
  "map id' (sortTodos browser seven (Some ''createdAt'') (Some ''asc''))
     = [''0'', ''1'', ''3'', ''6'', ''2'', ''4'', ''5'']
   \<and> sortKey browser ''createdAt'' (seven ! 5) = sortKey browser ''createdAt'' (seven ! 6)
   \<and> map id' (filter (\<lambda>t. sortKey browser ''createdAt'' t = sortKey browser ''createdAt'' (seven ! 5))
                seven)
       = [''0'', ''1'', ''3'', ''5'', ''6'']
   \<and> map id' (filter (\<lambda>t. sortKey browser ''createdAt'' t = sortKey browser ''createdAt'' (seven ! 5))
                (sortTodos browser seven (Some ''createdAt'') (Some ''asc'')))
       = [''0'', ''1'', ''3'', ''6'', ''5'']"
proof -
  let ?c = "compareTodos browser ''createdAt'' ''asc''"
  let ?e0 = "entry ''0'' ''2024-01-01T00:00:00.000Z''"
  let ?e1 = "entry ''1'' ''2024-01-01T00:00:00.000Z''"
  let ?e2 = "entry ''2'' ''2024-01-02T00:00:00.000Z''"
  let ?e3 = "entry ''3'' ''2024-01-01T00:00:00.000Z''"
  let ?e4 = "entry ''4'' ''yesterday''"
  let ?e5 = "entry ''5'' ''2024-01-01T00:00:00.000Z''"
  let ?e6 = "entry ''6'' ''2024-01-01T00:00:00.000Z''"
  have b3: "binary_search ?c ?e3 [?e0, ?e1, ?e2] 0 3 = 2"
    by (simp add: binary_search.simps compare_entries sample_times)
  have b4: "binary_search ?c ?e4 [?e0, ?e1, ?e3, ?e2] 0 4 = 4"
    by (simp add: binary_search.simps compare_entries sample_times)
  have b5: "binary_search ?c ?e5 [?e0, ?e1, ?e3, ?e2, ?e4] 0 5 = 5"
    by (simp add: binary_search.simps compare_entries sample_times)
  have b6: "binary_search ?c ?e6 [?e0, ?e1, ?e3, ?e2, ?e4, ?e5] 0 6 = 3"
    by (simp add: binary_search.simps compare_entries sample_times)
  have i3: "BinaryInsertionSort ?c [?e0, ?e1, ?e2] (?e3 # R)
              = BinaryInsertionSort ?c [?e0, ?e1, ?e3, ?e2] R" for R
    by (subst BinaryInsertionSort_step [OF b3]) simp_all
  have i4: "BinaryInsertionSort ?c [?e0, ?e1, ?e3, ?e2] (?e4 # R)
              = BinaryInsertionSort ?c [?e0, ?e1, ?e3, ?e2, ?e4] R" for R
    by (subst BinaryInsertionSort_step [OF b4]) simp_all
  have i5: "BinaryInsertionSort ?c [?e0, ?e1, ?e3, ?e2, ?e4] (?e5 # R)
              = BinaryInsertionSort ?c [?e0, ?e1, ?e3, ?e2, ?e4, ?e5] R" for R
    by (subst BinaryInsertionSort_step [OF b5]) simp_all
  have i6: "BinaryInsertionSort ?c [?e0, ?e1, ?e3, ?e2, ?e4, ?e5] (?e6 # R)
              = BinaryInsertionSort ?c [?e0, ?e1, ?e3, ?e6, ?e2, ?e4, ?e5] R" for R
    by (subst BinaryInsertionSort_step [OF b6]) simp_all
  have r: "CountAndMakeRun ?c seven = ([?e0, ?e1, ?e2], [?e3, ?e4, ?e5, ?e6])"
    by (simp add: seven_def compare_entries sample_times)
  have l: "\<not> length seven < 2" by (simp add: seven_def)
  have "Array_sort ?c seven = BinaryInsertionSort ?c [?e0, ?e1, ?e2] [?e3, ?e4, ?e5, ?e6]"
    by (simp only: Array_sort_def r l if_False Let_def prod.case)
  also have "\<dots> = [?e0, ?e1, ?e3, ?e6, ?e2, ?e4, ?e5]"
    by (simp only: i3 i4 i5 i6 BinaryInsertionSort.simps(1))
  finally have s: "sortTodos browser seven (Some ''createdAt'') (Some ''asc'')
             = [?e0, ?e1, ?e3, ?e6, ?e2, ?e4, ?e5]"
    by (simp add: sortTodos_def)
  have i: "id' (entry i d) = i" for i d by (simp add: entry_def)
  show ?thesis
    unfolding s by (simp add: seven_def sortKey_entry sample_times i)
qed


subsection \<open>Loading fails soft\<close>

text \<open>
  Claim C9. \<open>loadTodos\<close> never throws: it always returns a list. When the stored
  payload is absent, when reading it throws, and when it is not JSON, the list is empty;
  so it is whenever anything in the body of the \<open>try\<close> throws, and then the condition is
  logged to the console.
\<close>

theorem loadTodos_fails_soft:
  "(\<exists>todos. fst (loadTodos w) = Inr todos)
   \<and> (\<not> readable w \<longrightarrow> loadTodos w
          = (Inr [], console_error ''Error loading todos from localStorage:'' w))
   \<and> (readable w \<and> slot w = None \<longrightarrow> loadTodos w = (Inr [], w))
   \<and> (\<forall>s. readable w \<and> slot w = Some (NotJSON s) \<and> s \<noteq> [] \<longrightarrow> loadTodos w
          = (Inr [], console_error ''Error loading todos from localStorage:'' w))
   \<and> (slot w = None \<or> (\<exists>s. slot w = Some (NotJSON s)) \<longrightarrow> fst (loadTodos w) = Inr [])
   \<and> (\<forall>e w'. loadTodos_try w = (Inl e, w') \<longrightarrow> loadTodos w
          = (Inr [], console_error ''Error loading todos from localStorage:'' w'))"
proof (intro conjI allI impI)
  show "\<exists>todos. fst (loadTodos w) = Inr todos"
    by (cases "loadTodos_try w") (auto simp: loadTodos_def split: sum.splits)
  show "loadTodos w = (Inr [], console_error ''Error loading todos from localStorage:'' w)"
    if "\<not> readable w"
    using that by (simp add: loadTodos_def loadTodos_try_def getItem_def)
  show "loadTodos w = (Inr [], w)" if "readable w \<and> slot w = None"
    using that by (simp add: loadTodos_def loadTodos_try_def getItem_def)
  show "loadTodos w = (Inr [], console_error ''Error loading todos from localStorage:'' w)"
    if "readable w \<and> slot w = Some (NotJSON s) \<and> s \<noteq> []" for s
    using that by (simp add: loadTodos_def loadTodos_try_def getItem_def JSON_parse_def)
  show "fst (loadTodos w) = Inr []" if "slot w = None \<or> (\<exists>s. slot w = Some (NotJSON s))"
    using that
    by (auto simp: loadTodos_def loadTodos_try_def getItem_def JSON_parse_def)
  show "loadTodos w = (Inr [], console_error ''Error loading todos from localStorage:'' w')"
    if "loadTodos_try w = (Inl e, w')" for e w'
    using that by (simp add: loadTodos_def)
qed

theorem loadTodos_fails_soft_witness:
  "slot browser = None \<and> fst (loadTodos browser) = Inr []
   \<and> \<not> readable (browser\<lparr>readable := False\<rparr>)
   \<and> fst (loadTodos (browser\<lparr>readable := False\<rparr>)) = Inr []
   \<and> slot (browser\<lparr>slot := Some (NotJSON ''[{'')\<rparr>) = Some (NotJSON ''[{'')
   \<and> loadTodos (browser\<lparr>slot := Some (NotJSON ''[{'')\<rparr>)
       = (Inr [], console_error ''Error loading todos from localStorage:''
                    (browser\<lparr>slot := Some (NotJSON ''[{'')\<rparr>))
   \<and> loadTodos_try (browser\<lparr>slot := Some (JSONText (JArr [JNull]))\<rparr>)
       = (Inl TypeError, browser\<lparr>slot := Some (JSONText (JArr [JNull])), ticks := 2, drawn := 1\<rparr>)
   \<and> fst (loadTodos (browser\<lparr>slot := Some (JSONText (JArr [JNull]))\<rparr>)) = Inr []"
proof -
  have a: "slot browser = None" "readable browser" by (simp_all add: browser_def)
  have b: "\<not> readable (browser\<lparr>readable := False\<rparr>)" by simp
  have c: "slot (browser\<lparr>slot := Some (NotJSON ''[{'')\<rparr>) = Some (NotJSON ''[{'')"
          "readable (browser\<lparr>slot := Some (NotJSON ''[{'')\<rparr>)"
    by (simp_all add: browser_def)
  have d: "loadTodos_try (browser\<lparr>slot := Some (JSONText (JArr [JNull]))\<rparr>)
       = (Inl TypeError, browser\<lparr>slot := Some (JSONText (JArr [JNull])), ticks := 2, drawn := 1\<rparr>)"
    by (simp add: loadTodos_try_def getItem_def JSON_parse_def browser_def createTodo_obj_def
        uuidv4_def newDate_def)
  show ?thesis
    using a b c d loadTodos_fails_soft [of browser]
      loadTodos_fails_soft [of "browser\<lparr>readable := False\<rparr>"]
      loadTodos_fails_soft [of "browser\<lparr>slot := Some (NotJSON ''[{'')\<rparr>"]
      loadTodos_fails_soft [of "browser\<lparr>slot := Some (JSONText (JArr [JNull]))\<rparr>"]
    by simp
qed


subsection \<open>Export, then import\<close>

text \<open>
  Claim C2, as the code has it. For every list of todos with a non-empty text, a
  non-empty id and a non-empty \<open>createdAt\<close>: the export offers one file whose content, once
  imported, is a list of the same length with, at each position, the record of the
  input with all its fields (id, text, completed, category, priority, \<open>createdAt\<close>,
  \<open>dueDate\<close>, tags, description) but \<open>updatedAt\<close>, which is the reading of the clock at
  the import of that record.
\<close>

theorem export_import_roundtrip:
  assumes "\<forall>t\<in>set todos. text' t \<noteq> [] \<and> id' t \<noteq> [] \<and> createdAt t \<noteq> []"
    and "dom_ok w0"
  shows "fst (exportTodos w0 todos) = True
       \<and> (\<exists>name content.
            downloads (snd (exportTodos w0 todos)) = downloads w0 @ [(name, content)]
          \<and> fst (importTodos w (Some content)) =
               Inr (map (\<lambda>k. toObject ((todos ! k)\<lparr>updatedAt := clock w (ticks w + 3 * k + 2)\<rparr>))
                      [0..<length todos]))"
proof -
  have "fst (importTodos_map w (filter importable (map toJSON todos))) =
          Inr (map (\<lambda>k. toObject ((todos ! k)\<lparr>updatedAt := clock w (ticks w + 3 * k + 2)\<rparr>))
                 [0..<length todos])"
    using assms(1) by (simp add: filter_importable_toJSON import_all)
  then have "fst (importTodos w (Some (JSON_stringify (JArr (map toJSON todos))))) =
          Inr (map (\<lambda>k. toObject ((todos ! k)\<lparr>updatedAt := clock w (ticks w + 3 * k + 2)\<rparr>))
                 [0..<length todos])"
    by (rule fst_importTodos_array)
  with assms(2) show ?thesis
    by (simp add: exportTodos_def newDate_def Let_def)
qed

theorem export_import_roundtrip_witness:
  "text' milk \<noteq> [] \<and> id' milk \<noteq> [] \<and> createdAt milk \<noteq> []
   \<and> text' bread \<noteq> [] \<and> id' bread \<noteq> [] \<and> createdAt bread \<noteq> []
   \<and> dom_ok browser
   \<and> fst (exportTodos browser [milk, bread]) = True
   \<and> (\<exists>name content.
         downloads (snd (exportTodos browser [milk, bread])) = downloads browser @ [(name, content)]
       \<and> fst (importTodos browser (Some content)) =
            Inr [toObject (milk\<lparr>updatedAt := clock browser 2\<rparr>),
                 toObject (bread\<lparr>updatedAt := clock browser 5\<rparr>)])"
proof -
  have h: "\<forall>t\<in>set [milk, bread]. text' t \<noteq> [] \<and> id' t \<noteq> [] \<and> createdAt t \<noteq> []"
    by (simp add: milk_def bread_def)
  have d: "dom_ok browser" by (simp add: browser_def)
  have u: "map (\<lambda>k. toObject (([milk, bread] ! k)
                 \<lparr>updatedAt := clock browser (ticks browser + 3 * k + 2)\<rparr>))
             [0..<length [milk, bread]]
           = [toObject (milk\<lparr>updatedAt := clock browser 2\<rparr>),
              toObject (bread\<lparr>updatedAt := clock browser 5\<rparr>)]"
    by (simp add: upt_rec sample_clock(1) numeral_2_eq_2)
  show ?thesis
    using h d export_import_roundtrip [OF h d, of browser]
    unfolding u by simp
qed


text \<open>
  \<open>importTodos\<close> writes \<open>updatedAt: new Date().toISOString()\<close> after the spread of the
  imported record: a record last updated on 2023-12-31 comes back with the time of the
  import.
\<close>

theorem import_restamps_updatedAt:
  "fst (exportTodos browser [milk]) = True
   \<and> downloads (snd (exportTodos browser [milk]))
       = [(''todos-2024-01-01.json'', JSON_stringify (JArr [toJSON milk]))]
   \<and> fst (importTodos browser (Some (JSON_stringify (JArr [toJSON milk]))))
       = Inr [toObject (milk\<lparr>updatedAt := ''2024-01-01T00:00:00.102Z''\<rparr>)]
   \<and> updatedAt milk = ''2023-12-31T09:00:00.000Z''"
proof -
  have m: "text' milk \<noteq> []" "id' milk \<noteq> []" "createdAt milk \<noteq> []"
    by (simp_all add: milk_def)
  have e: "exportTodos browser [milk]
     = (True, browser\<lparr>ticks := 1,
          downloads := [(''todos-2024-01-01.json'', JSON_stringify (JArr [toJSON milk]))]\<rparr>)"
    by (simp add: exportTodos_def newDate_def browser_def decimal.simps)
  have i: "fst (importTodos browser (Some (JSON_stringify (JArr [toJSON milk]))))
       = Inr [toObject (milk\<lparr>updatedAt := ''2024-01-01T00:00:00.102Z''\<rparr>)]"
    using fst_importTodos_array [of browser "[toJSON milk]"] import_all [of "[milk]" browser] m
    by (simp add: sample_clock(1) sample_clock(4) [unfolded numeral_2_eq_2])
  show ?thesis using e i by (simp add: milk_def)
qed

subsection \<open>Statistics\<close>

text \<open>
  Claim C7. Of its four parts, three hold for every list (lemma
  \<open>getTodoStats_invariants\<close>): \<open>total = completed + active\<close>, \<open>completionRate\<close> is
  at most 100, and it is 0 when \<open>total\<close> is 0. The fourth fails: \<open>completionRate\<close> is
  \<open>Math.round\<close> of the double \<open>(completed / total) * 100\<close>, and that double can lie just
  below a half that the exact \<open>100 * completed / total\<close> reaches. With 23 of 40 todos
  completed, \<open>23 / 40\<close> is the double \<open>0.57499999999999996\<close>, its product with 100 is
  \<open>57.49999999999999\<close>, and \<open>getTodoStats\<close> returns 57, whereas \<open>100 * 23 / 40\<close> is
  \<open>57.5\<close>, which rounds to 58.
\<close>

theorem completionRate_23_of_40:
  "total' (fst (getTodoStats browser (replicate 23 bread @ replicate 17 milk))) = 40
   \<and> completed' (fst (getTodoStats browser (replicate 23 bread @ replicate 17 milk))) = 23
   \<and> completionRate (fst (getTodoStats browser (replicate 23 bread @ replicate 17 milk))) = 57
   \<and> round (100 * 23 / 40 :: real) = 58"
proof -
  have c: "completed bread" "\<not> completed milk" by (simp_all add: bread_def milk_def)
  have r: "round (100 * 23 / 40 :: real) = 58"
    unfolding round_def by simp
  show ?thesis
    using r by (simp add: getTodoStats_counts c rate_23_of_40)
qed


end
